theory Spec2Isabelle
  imports Complex_Main "HOL-Library.Word" "HOL-Library.Log_Nat"
begin

section \<open>kube-oom-watcher: data model\<close>

text \<open>
  The embedding follows the latest revision of \<^verbatim>\<open>main.go\<close> (the one with
  \<^verbatim>\<open>internalPodIndexer\<close>, \<^verbatim>\<open>internalEventWatcher\<close>, \<^verbatim>\<open>extractUID\<close> and the
  \<^verbatim>\<open>uidIndex\<close> pointer). Go strings are byte strings: \<^typ>\<open>string\<close>.
\<close>

type_synonym uint64 = "64 word"
type_synonym UID = string

text \<open>\<^verbatim>\<open>type PodInfo struct { Name string; Namespace string }\<close>\<close>

record PodInfo =
  Name :: string
  Namespace :: string

text \<open>
  The values of Go's \<^verbatim>\<open>error\<close> interface that the program creates or passes on.
  \<^item> \<open>NoMatch m\<close>: \<^verbatim>\<open>fmt.Errorf("Event message does not match: %s", message)\<close>
  \<^item> \<open>NumError s r\<close>: the \<^verbatim>\<open>*strconv.NumError\<close> of \<^verbatim>\<open>strconv.ParseUint\<close>
  \<^item> \<open>UnknownCgroup c\<close>: \<^verbatim>\<open>fmt.Errorf("Unknown cgroup format: %s", cgroup)\<close>
  \<^item> \<open>NoPsRecord n p\<close>: \<^verbatim>\<open>fmt.Errorf("No ps record for node %s and PID %d", ...)\<close>
  \<^item> \<open>IndexNotReady\<close>: \<^verbatim>\<open>fmt.Errorf("UID index not ready")\<close>
  \<^item> \<open>PodNotKnown u\<close>: \<^verbatim>\<open>fmt.Errorf("Pod with UID %s is not known", uid)\<close>
  \<^item> \<open>PostFailed s\<close>: \<^verbatim>\<open>fmt.Errorf("Failed to POST: %s", resp.Status)\<close>
  \<^item> \<open>StatusError reason msg\<close>: \<^verbatim>\<open>*apierrs.StatusError\<close> with its \<^verbatim>\<open>ErrStatus.Reason\<close>
  \<^item> \<open>UnexpectedObjectError\<close>: what \<^verbatim>\<open>apierrs.FromObject\<close> returns for a non-status object
  \<^item> \<open>OtherError msg\<close>: any error of a library (transport, database, JSON)
\<close>

datatype num_reason = ErrSyntax | ErrRange

datatype error =
    NoMatch string
  | NumError string num_reason
  | UnknownCgroup string
  | NoPsRecord string uint64
  | IndexNotReady
  | PodNotKnown UID
  | PostFailed string
  | StatusError string string
  | UnexpectedObjectError
  | OtherError string

text \<open>
  \<^verbatim>\<open>type OOMEvent struct { Node string; PID uint64; Error error }\<close>; a nil
  \<^verbatim>\<open>Error\<close> is \<open>None\<close>. A composite literal leaves the fields it does not name
  at their zero values.
\<close>

record OOMEvent =
  Node :: string
  PID :: uint64
  Error :: "error option"

section \<open>Regular expressions\<close>

text \<open>
  The two patterns of the program, \<^verbatim>\<open>Kill\s+process\s+(\d+)\<close> and
  \<^verbatim>\<open>/pod([\w\-]+)/\<close>, are sequences of literals and of one-or-more repetitions
  of a character class, one of them capturing. \<open>FindStringSubmatch\<close> models
  \<^verbatim>\<open>(*regexp.Regexp).FindStringSubmatch\<close> on such patterns: the leftmost match,
  repetitions greedy (longest first, giving back one character at a time), the
  result holding the matched text followed by the captured groups.
\<close>

datatype item = Lit string | Plus "char \<Rightarrow> bool" | CapPlus "char \<Rightarrow> bool"

type_synonym regexp = "item list"

text \<open>The Perl classes of Go's syntax: \<^verbatim>\<open>\s\<close> is \<^verbatim>\<open>[\t\n\f\r ]\<close>, \<^verbatim>\<open>\d\<close> is
  \<^verbatim>\<open>[0-9]\<close>, \<^verbatim>\<open>\w\<close> is \<^verbatim>\<open>[0-9A-Za-z_]\<close>.\<close>

definition perl_space :: "char \<Rightarrow> bool" where
  "perl_space c = (c \<in> set [CHR 0x09, CHR 0x0A, CHR 0x0C, CHR 0x0D, CHR '' ''])"

definition perl_digit :: "char \<Rightarrow> bool" where
  "perl_digit c = (of_char c \<ge> (48::nat) \<and> of_char c \<le> (57::nat))"

definition perl_word :: "char \<Rightarrow> bool" where
  "perl_word c = (perl_digit c
     \<or> (of_char c \<ge> (65::nat) \<and> of_char c \<le> (90::nat))
     \<or> (of_char c \<ge> (97::nat) \<and> of_char c \<le> (122::nat))
     \<or> c = CHR ''_'')"

definition word_or_dash :: "char \<Rightarrow> bool" where
  "word_or_dash c = (perl_word c \<or> c = CHR ''-'')"

fun first_some :: "('a \<Rightarrow> 'b option) \<Rightarrow> 'a list \<Rightarrow> 'b option" where
  "first_some f [] = None"
| "first_some f (x # xs) = (case f x of Some y \<Rightarrow> Some y | None \<Rightarrow> first_some f xs)"

text \<open>The candidate lengths of a repetition on \<open>s\<close>: the longest run first, down to one.\<close>

definition greedy_lengths :: "(char \<Rightarrow> bool) \<Rightarrow> string \<Rightarrow> nat list" where
  "greedy_lengths c s = rev [1 ..< Suc (length (takeWhile c s))]"

text \<open>\<open>match_here re s\<close>: a match of \<open>re\<close> that starts at the head of \<open>s\<close>, as the
  number of characters matched and the captured groups.\<close>

fun match_here :: "regexp \<Rightarrow> string \<Rightarrow> (nat \<times> string list) option" where
  "match_here [] s = Some (0, [])"
| "match_here (Lit l # r) s =
     (if take (length l) s = l
      then (case match_here r (drop (length l) s) of
              None \<Rightarrow> None
            | Some (n, caps) \<Rightarrow> Some (length l + n, caps))
      else None)"
| "match_here (Plus c # r) s =
     first_some (\<lambda>k. case match_here r (drop k s) of
                        None \<Rightarrow> None
                      | Some (n, caps) \<Rightarrow> Some (k + n, caps))
       (greedy_lengths c s)"
| "match_here (CapPlus c # r) s =
     first_some (\<lambda>k. case match_here r (drop k s) of
                        None \<Rightarrow> None
                      | Some (n, caps) \<Rightarrow> Some (k + n, take k s # caps))
       (greedy_lengths c s)"

fun FindStringSubmatch :: "regexp \<Rightarrow> string \<Rightarrow> string list option" where
  "FindStringSubmatch re [] =
     (case match_here re [] of None \<Rightarrow> None | Some (n, caps) \<Rightarrow> Some ([] # caps))"
| "FindStringSubmatch re (x # xs) =
     (case match_here re (x # xs) of
        None \<Rightarrow> FindStringSubmatch re xs
      | Some (n, caps) \<Rightarrow> Some (take n (x # xs) # caps))"

text \<open>\<^verbatim>\<open>pidRegExp, err = regexp.Compile("Kill\\s+process\\s+(\\d+)")\<close>\<close>

definition pidRegExp :: regexp where
  "pidRegExp = [Lit ''Kill'', Plus perl_space, Lit ''process'', Plus perl_space, CapPlus perl_digit]"

text \<open>\<^verbatim>\<open>cgroupRegExp, err = regexp.Compile("/pod([\\w\\-]+)/")\<close>\<close>

definition cgroupRegExp :: regexp where
  "cgroupRegExp = [Lit ''/pod'', CapPlus word_or_dash, Lit ''/'']"

section \<open>Extraction of the process id and of the pod UID\<close>

text \<open>
  \<^verbatim>\<open>strconv.ParseUint(s, 10, 64)\<close>. The empty string is a syntax error. The loop
  over the characters keeps the value \<open>n\<close> read so far: a character that is not a
  decimal digit is a syntax error; \<open>n \<ge> cutoff\<close> means that \<open>n * 10\<close> overflows, and
  the test \<^verbatim>\<open>n1 < n || n1 > maxVal\<close> that adding the digit does, both range errors.
  Below the cutoff \<open>n * 10\<close> does not wrap around, so that the values are natural
  numbers here and the second test is \<open>n * 10 + d \<ge> 2^64\<close>.
  \<^verbatim>\<open>
  cutoff = maxUint64/10 + 1
  for _, c := range []byte(s) {
      ...
      if n >= cutoff {
          return maxVal, rangeError(fnParseUint, s0)
      }
      n *= uint64(base)
      n1 := n + uint64(d)
      if n1 < n || n1 > maxVal {
          return maxVal, rangeError(fnParseUint, s0)
      }
      n = n1
  }
  \<close>
  \<open>decimal_value 0 s\<close> is the number that a string of digits denotes.
\<close>

definition digit_val :: "char \<Rightarrow> nat" where
  "digit_val c = of_char c - 48"

fun decimal_value :: "nat \<Rightarrow> string \<Rightarrow> nat" where
  "decimal_value acc [] = acc"
| "decimal_value acc (c # cs) = decimal_value (acc * 10 + digit_val c) cs"

definition cutoff :: nat where
  "cutoff = (2 ^ 64 - 1) div 10 + 1"

fun ParseUint_loop :: "nat \<Rightarrow> string \<Rightarrow> num_reason + nat" where
  "ParseUint_loop n [] = Inr n"
| "ParseUint_loop n (c # cs) =
     (if \<not> perl_digit c then Inl ErrSyntax
      else if n \<ge> cutoff then Inl ErrRange
      else if n * 10 + digit_val c \<ge> 2 ^ 64 then Inl ErrRange
      else ParseUint_loop (n * 10 + digit_val c) cs)"

definition ParseUint :: "string \<Rightarrow> error + uint64" where
  "ParseUint s =
     (if s = [] then Inl (NumError s ErrSyntax)
      else (case ParseUint_loop 0 s of
              Inl reason \<Rightarrow> Inl (NumError s reason)
            | Inr n \<Rightarrow> Inr (word_of_nat n)))"

text \<open>
  \<^verbatim>\<open>
  func extractPID(message string) (uint64, error) {
      match := pidRegExp.FindStringSubmatch(message)
      if match == nil {
          return 0, fmt.Errorf("Event message does not match: %s", message)
      }
      pid, err := strconv.ParseUint(match[1], 10, 64)
      if err != nil {
          return 0, err
      }
      return pid, nil
  }
  \<close>
  The pair \<open>(0, err)\<close> of the error returns is \<open>Inl err\<close>; \<open>pid_of\<close> reads the
  first component of the pair back.
\<close>

definition extractPID :: "string \<Rightarrow> error + uint64" where
  "extractPID message =
     (case FindStringSubmatch pidRegExp message of
        None \<Rightarrow> Inl (NoMatch message)
      | Some match \<Rightarrow>
          (case ParseUint (match ! 1) of
             Inl err \<Rightarrow> Inl err
           | Inr pid \<Rightarrow> Inr pid))"

definition pid_of :: "error + uint64 \<Rightarrow> uint64" where
  "pid_of r = (case r of Inl err \<Rightarrow> 0 | Inr pid \<Rightarrow> pid)"

definition err_of :: "error + 'a \<Rightarrow> error option" where
  "err_of r = (case r of Inl err \<Rightarrow> Some err | Inr v \<Rightarrow> None)"

text \<open>
  \<^verbatim>\<open>
  func extractUID(cgroup string) (types.UID, error) {
      match := cgroupRegExp.FindStringSubmatch(cgroup)
      if match == nil {
          return "", fmt.Errorf("Unknown cgroup format: %s", cgroup)
      }
      return types.UID(match[1]), nil
  }
  \<close>
\<close>

definition extractUID :: "string \<Rightarrow> error + UID" where
  "extractUID cgroup =
     (case FindStringSubmatch cgroupRegExp cgroup of
        None \<Rightarrow> Inl (UnknownCgroup cgroup)
      | Some match \<Rightarrow> Inr (match ! 1))"

text \<open>
  What a match of each pattern is, written out: \<open>kill_process_at message pre ws1 ws2 d post\<close>
  says that \<open>message\<close> is \<open>pre\<close>, \<^verbatim>\<open>Kill\<close>, the white space \<open>ws1\<close>, \<^verbatim>\<open>process\<close>,
  the white space \<open>ws2\<close>, the digits \<open>d\<close> and \<open>post\<close>; \<open>pod_segment_at cgroup pre u post\<close>
  says that \<open>cgroup\<close> is \<open>pre\<close>, \<^verbatim>\<open>/pod\<close>, the identifier \<open>u\<close>, \<^verbatim>\<open>/\<close> and \<open>post\<close>.
  \<open>denotes re w caps\<close> is the same for any pattern: the text \<open>w\<close> is matched by \<open>re\<close>
  as a whole, with the groups \<open>caps\<close>.
\<close>

fun denotes :: "regexp \<Rightarrow> string \<Rightarrow> string list \<Rightarrow> bool" where
  "denotes [] w caps = (w = [] \<and> caps = [])"
| "denotes (Lit l # r) w caps = (\<exists>w'. w = l @ w' \<and> denotes r w' caps)"
| "denotes (Plus c # r) w caps =
     (\<exists>a w'. w = a @ w' \<and> a \<noteq> [] \<and> list_all c a \<and> denotes r w' caps)"
| "denotes (CapPlus c # r) w caps =
     (\<exists>a w' caps'. w = a @ w' \<and> a \<noteq> [] \<and> list_all c a \<and> caps = a # caps' \<and> denotes r w' caps')"

definition kill_process_at ::
  "string \<Rightarrow> string \<Rightarrow> string \<Rightarrow> string \<Rightarrow> string \<Rightarrow> string \<Rightarrow> bool" where
  "kill_process_at message pre ws1 ws2 d post \<longleftrightarrow>
     message = pre @ ''Kill'' @ ws1 @ ''process'' @ ws2 @ d @ post
     \<and> ws1 \<noteq> [] \<and> list_all perl_space ws1
     \<and> ws2 \<noteq> [] \<and> list_all perl_space ws2
     \<and> d \<noteq> [] \<and> list_all perl_digit d"

definition pod_segment_at :: "string \<Rightarrow> string \<Rightarrow> UID \<Rightarrow> string \<Rightarrow> bool" where
  "pod_segment_at cgroup pre u post \<longleftrightarrow>
     cgroup = pre @ ''/pod'' @ u @ ''/'' @ post \<and> u \<noteq> [] \<and> list_all word_or_dash u"

text \<open>The pattern as the specification words it, \<^verbatim>\<open>Kill process (\d+)\<close>: one space
  after each word. It is compared with \<open>pidRegExp\<close> below.\<close>

definition spec_pidRegExp :: regexp where
  "spec_pidRegExp = [Lit ''Kill process '', CapPlus perl_digit]"

section \<open>The watch protocol\<close>

text \<open>
  \<^verbatim>\<open>watch.EventType\<close> with its five constants, the objects a watch event can carry
  (\<^verbatim>\<open>*v1.Pod\<close>, \<^verbatim>\<open>*v1.Event\<close>, \<^verbatim>\<open>*metav1.Status\<close> with its reason and message, or
  anything else), and the fields of pods and events that the program reads.
\<close>

datatype EventType = Added | Modified | Deleted | Bookmark | watch_Error

record Pod =
  pod_UID :: UID
  pod_Name :: string
  pod_Namespace :: string
  pod_ResourceVersion :: string

record Event =
  Reason :: string
  InvolvedObject_Kind :: string
  InvolvedObject_Name :: string
  Message :: string
  event_ResourceVersion :: string

datatype runtime_Object =
    PodObject Pod
  | EventObject Event
  | StatusObject string string
  | OtherObject

record watch_Event =
  Type :: EventType
  Object :: runtime_Object

text \<open>
  The answers of the API server, in the order of the calls: a \<^verbatim>\<open>List\<close> call fails
  or returns the items and the list's resource version; a \<^verbatim>\<open>Watch\<close> call fails or
  returns a channel that delivers some events and is then closed (the timeout).
\<close>

type_synonym pod_list_answer = "error + (Pod list \<times> string)"
type_synonym event_list_answer = "error + (Event list \<times> string)"

datatype watch_answer = WatchFails error | WatchStream "watch_Event list"

text \<open>\<^verbatim>\<open>apierrs.FromObject\<close>: a status object becomes a \<^verbatim>\<open>*StatusError\<close>, any other
  object an \<^verbatim>\<open>*UnexpectedObjectError\<close>.\<close>

fun FromObject :: "runtime_Object \<Rightarrow> error" where
  "FromObject (StatusObject reason msg) = StatusError reason msg"
| "FromObject (PodObject p) = UnexpectedObjectError"
| "FromObject (EventObject e) = UnexpectedObjectError"
| "FromObject OtherObject = UnexpectedObjectError"

text \<open>
  \<^verbatim>\<open>
  if statusErr, ok := err.(*apierrs.StatusError); ok {
      if statusErr.ErrStatus.Reason == metav1.StatusReasonExpired {
  \<close>
  with \<^verbatim>\<open>StatusReasonExpired = "Expired"\<close>.
\<close>

fun reason_expired :: "error \<Rightarrow> bool" where
  "reason_expired (StatusError reason msg) = (reason = ''Expired'')"
| "reason_expired (NoMatch m) = False"
| "reason_expired (NumError d r) = False"
| "reason_expired (UnknownCgroup c) = False"
| "reason_expired (NoPsRecord n p) = False"
| "reason_expired IndexNotReady = False"
| "reason_expired (PodNotKnown u) = False"
| "reason_expired (PostFailed st) = False"
| "reason_expired UnexpectedObjectError = False"
| "reason_expired (OtherError m) = False"

text \<open>
  How a watch iteration can terminate with an error, seen from the server's
  answers alone: the \<^verbatim>\<open>Watch\<close> call fails with that error, or the stream carries an
  event of type \<^verbatim>\<open>watch.Error\<close>, and the error is the one that
  \<^verbatim>\<open>apierrs.FromObject\<close> makes of the object of the first such event. An iteration
  whose stream is closed without an error event terminates without error.
\<close>

fun first_error :: "watch_Event list \<Rightarrow> error option" where
  "first_error [] = None"
| "first_error (watchEvent # evs) =
     (if Type watchEvent = watch_Error then Some (FromObject (Object watchEvent))
      else first_error evs)"

fun watch_error :: "watch_answer \<Rightarrow> error option" where
  "watch_error (WatchFails err) = Some err"
| "watch_error (WatchStream evs) = first_error evs"

section \<open>The watch timeout\<close>

text \<open>
  \<^verbatim>\<open>timeoutSeconds := int64(minWatchTimeout.Seconds() * (rand.Float64() + 1.0))\<close>
  with \<^verbatim>\<open>minWatchTimeout = 5 * time.Minute\<close>. \<^verbatim>\<open>Seconds()\<close> is the \<^verbatim>\<open>float64\<close> 300,
  \<^verbatim>\<open>rand.Float64()\<close> returns a \<^verbatim>\<open>float64\<close> of \<open>[0, 1)\<close>. The sum and the product are
  \<^verbatim>\<open>float64\<close> operations: the exact result rounded to 53 significant bits, to
  nearest, ties to the even significand. \<open>rnd64\<close> is that rounding for
  \<open>1 \<le> x < 2^1024\<close>, where all values of this expression lie: for
  \<open>2^e \<le> x < 2^(e+1)\<close> the spacing of the \<^verbatim>\<open>float64\<close> values is \<open>2^(e-52)\<close>, and
  \<open>floorlog 2 (nat \<lfloor>x\<rfloor>)\<close> is \<open>e + 1\<close>. The conversion \<^verbatim>\<open>int64(...)\<close> truncates
  towards zero.
\<close>

definition round_half_even :: "real \<Rightarrow> int" where
  "round_half_even q =
     (if q - of_int \<lfloor>q\<rfloor> < 1 / 2 then \<lfloor>q\<rfloor>
      else if q - of_int \<lfloor>q\<rfloor> > 1 / 2 then \<lfloor>q\<rfloor> + 1
      else if even \<lfloor>q\<rfloor> then \<lfloor>q\<rfloor> else \<lfloor>q\<rfloor> + 1)"

definition ulp64 :: "real \<Rightarrow> real" where
  "ulp64 x = 2 ^ floorlog 2 (nat \<lfloor>x\<rfloor>) / 2 ^ 53"

definition rnd64 :: "real \<Rightarrow> real" where
  "rnd64 x = ulp64 x * of_int (round_half_even (x / ulp64 x))"

definition float64_add :: "real \<Rightarrow> real \<Rightarrow> real" where
  "float64_add a b = rnd64 (a + b)"

definition float64_mul :: "real \<Rightarrow> real \<Rightarrow> real" where
  "float64_mul a b = rnd64 (a * b)"

definition int64_of_float64 :: "real \<Rightarrow> int" where
  "int64_of_float64 x = (if x \<ge> 0 then \<lfloor>x\<rfloor> else \<lceil>x\<rceil>)"

definition minWatchTimeout_Seconds :: real where
  "minWatchTimeout_Seconds = 5 * 60"

definition timeoutSeconds :: "real \<Rightarrow> int" where
  "timeoutSeconds rand_Float64 =
     int64_of_float64 (float64_mul minWatchTimeout_Seconds (float64_add rand_Float64 1))"

section \<open>The pod indexer\<close>

type_synonym pod_index = "UID \<rightharpoonup> PodInfo"

text \<open>\<^verbatim>\<open>index[pod.UID] = PodInfo{Name: pod.Name, Namespace: pod.Namespace}\<close>\<close>

definition index_put :: "pod_index \<Rightarrow> Pod \<Rightarrow> pod_index" where
  "index_put index pod =
     index(pod_UID pod \<mapsto> \<lparr>Name = pod_Name pod, Namespace = pod_Namespace pod\<rparr>)"

text \<open>\<^verbatim>\<open>for _, pod := range list.Items { index[pod.UID] = PodInfo{...} }\<close>\<close>

fun load_items :: "pod_index \<Rightarrow> Pod list \<Rightarrow> pod_index" where
  "load_items index [] = index"
| "load_items index (pod # items) = load_items (index_put index pod) items"

text \<open>
  The body of \<^verbatim>\<open>for watchEvent := range watcher.ResultChan()\<close> in
  \<^verbatim>\<open>internalPodIndexer\<close>, on the local variables \<^verbatim>\<open>index\<close> and
  \<^verbatim>\<open>resourceVersion\<close>; \<open>Inl err\<close> is \<^verbatim>\<open>return apierrs.FromObject(watchEvent.Object)\<close>.
  \<^verbatim>\<open>
  if watchEvent.Type == watch.Error {
      return apierrs.FromObject(watchEvent.Object)
  }
  pod, ok := watchEvent.Object.(*v1.Pod)
  if !ok {
      log.Println(...)
      continue
  }
  resourceVersion = pod.ResourceVersion
  if watchEvent.Type == watch.Added {
      index[pod.UID] = PodInfo{Name: pod.Name, Namespace: pod.Namespace}
  } else if watchEvent.Type == watch.Deleted {
      delete(index, pod.UID)
  }
  \<close>
\<close>

definition podIndexer_event ::
  "pod_index \<times> string \<Rightarrow> watch_Event \<Rightarrow> error + (pod_index \<times> string)" where
  "podIndexer_event st watchEvent =
     (if Type watchEvent = watch_Error then Inl (FromObject (Object watchEvent))
      else (case Object watchEvent of
              PodObject pod \<Rightarrow>
                (if Type watchEvent = Added
                 then Inr (index_put (fst st) pod, pod_ResourceVersion pod)
                 else if Type watchEvent = Deleted
                 then Inr ((fst st)(pod_UID pod := None), pod_ResourceVersion pod)
                 else Inr (fst st, pod_ResourceVersion pod))
            | EventObject e \<Rightarrow> Inr st
            | StatusObject reason msg \<Rightarrow> Inr st
            | OtherObject \<Rightarrow> Inr st))"

text \<open>The events of one channel, until it is closed. An error return keeps the index
  as it was when the function returned: the caller's global still points to it.\<close>

fun podIndexer_events ::
  "pod_index \<times> string \<Rightarrow> watch_Event list \<Rightarrow> (error \<times> pod_index) + (pod_index \<times> string)" where
  "podIndexer_events st [] = Inr st"
| "podIndexer_events st (watchEvent # evs) =
     (case podIndexer_event st watchEvent of
        Inl err \<Rightarrow> Inl (err, fst st)
      | Inr st' \<Rightarrow> podIndexer_events st' evs)"

text \<open>
  How a call of \<^verbatim>\<open>internalPodIndexer\<close> ends, with the value of the global
  \<^verbatim>\<open>uidIndex\<close> at that moment: it returns an error (the unread watch answers are
  left), it calls \<^verbatim>\<open>log.Fatalln\<close>, or the answers of the server are used up and it
  is still waiting in its loop.
\<close>

datatype indexer_run =
    Returns error "pod_index option" "watch_answer list"
  | Fatal error "pod_index option"
  | Waiting "pod_index option"

text \<open>The outer \<^verbatim>\<open>for { ... Watch ... }\<close> of \<^verbatim>\<open>internalPodIndexer\<close>. The global
  \<^verbatim>\<open>uidIndex\<close> is \<^verbatim>\<open>&index\<close> from here on, so that it always shows the current
  \<^verbatim>\<open>index\<close>.\<close>

fun podIndexer_watch :: "pod_index \<times> string \<Rightarrow> watch_answer list \<Rightarrow> indexer_run" where
  "podIndexer_watch st [] = Waiting (Some (fst st))"
| "podIndexer_watch st (WatchFails err # ws) = Returns err (Some (fst st)) ws"
| "podIndexer_watch st (WatchStream evs # ws) =
     (case podIndexer_events st evs of
        Inl (err, index) \<Rightarrow> Returns err (Some index) ws
      | Inr st' \<Rightarrow> podIndexer_watch st' ws)"

text \<open>
  \<^verbatim>\<open>
  func internalPodIndexer(clientset *kubernetes.Clientset) error {
      list, err := clientset.CoreV1().Pods("").List(...)
      if err != nil {
          log.Fatalln(err)
      }
      index := make(map[types.UID]PodInfo, 1000)
      for _, pod := range list.Items { ... }
      resourceVersion := list.ResourceVersion
      uidIndex = &index
      for { ... }
  }
  \<close>
  The first argument is the value of \<^verbatim>\<open>uidIndex\<close> when the function is called.
\<close>

definition internalPodIndexer ::
  "pod_index option \<Rightarrow> pod_list_answer \<Rightarrow> watch_answer list \<Rightarrow> indexer_run" where
  "internalPodIndexer uidIndex list_answer ws =
     (case list_answer of
        Inl err \<Rightarrow> Fatal err uidIndex
      | Inr (items, resourceVersion) \<Rightarrow>
          podIndexer_watch (load_items Map.empty items, resourceVersion) ws)"

text \<open>
  The statements of \<^verbatim>\<open>internalPodIndexer\<close> between the list call and the watch
  loop, one at a time, on the memory that the function shares with \<open>handleOOM\<close>:
  the maps allocated so far (\<open>heap\<close>, at the addresses below \<open>next_addr\<close>) and the
  global \<^verbatim>\<open>var uidIndex *map[types.UID]PodInfo\<close>, nil or the address of a map.
  \<open>read_uidIndex\<close> is what a reader of \<^verbatim>\<open>uidIndex\<close> finds: nil, or the map that
  \<^verbatim>\<open>*uidIndex\<close> is at that moment.
\<close>

record memory =
  heap :: "nat \<Rightarrow> pod_index"
  next_addr :: nat
  uidIndex_ptr :: "nat option"

definition read_uidIndex :: "memory \<Rightarrow> pod_index option" where
  "read_uidIndex s = map_option (heap s) (uidIndex_ptr s)"

text \<open>
  \<^verbatim>\<open>index := make(map[types.UID]PodInfo, 1000)\<close> allocates a new empty map,
  \<^verbatim>\<open>index[pod.UID] = PodInfo{...}\<close> writes into the map at that address, and
  \<^verbatim>\<open>uidIndex = &index\<close> makes the global point to it.
\<close>

definition make_index :: "memory \<Rightarrow> nat \<times> memory" where
  "make_index s =
     (next_addr s, s\<lparr>heap := (heap s)(next_addr s := Map.empty), next_addr := Suc (next_addr s)\<rparr>)"

definition put_item :: "nat \<Rightarrow> memory \<Rightarrow> Pod \<Rightarrow> memory" where
  "put_item a s pod = s\<lparr>heap := (heap s)(a := index_put (heap s a) pod)\<rparr>"

definition publish :: "nat \<Rightarrow> memory \<Rightarrow> memory" where
  "publish a s = s\<lparr>uidIndex_ptr := Some a\<rparr>"

text \<open>
  The memories that the function goes through, in the order of its statements:
  the one after \<^verbatim>\<open>make\<close>, the one after each iteration of
  \<^verbatim>\<open>for _, pod := range list.Items\<close>, and the one after \<^verbatim>\<open>uidIndex = &index\<close>.
  The program has no synchronisation between the goroutine that writes and the
  one that reads \<^verbatim>\<open>uidIndex\<close>; the reader is taken to see one of these memories.
\<close>

fun load_trace :: "nat \<Rightarrow> memory \<Rightarrow> Pod list \<Rightarrow> memory list" where
  "load_trace a s [] = []"
| "load_trace a s (pod # items) = put_item a s pod # load_trace a (put_item a s pod) items"

definition snapshot_trace :: "memory \<Rightarrow> Pod list \<Rightarrow> memory list" where
  "snapshot_trace s items =
     (case make_index s of
        (a, s1) \<Rightarrow> (s1 # load_trace a s1 items) @ [publish a (last (s1 # load_trace a s1 items))])"

text \<open>
  \<^verbatim>\<open>
  func podIndexer(clientset *kubernetes.Clientset) {
      for {
          err := internalPodIndexer(clientset)
          if statusErr, ok := err.(*apierrs.StatusError); ok {
              if statusErr.ErrStatus.Reason == metav1.StatusReasonExpired {
                  log.Println("podIndexer:", err, "Restarting watch")
                  continue
              }
          }
          log.Fatalln(err)
      }
  }
  \<close>
  The process ends (\<open>Exited\<close>, by \<^verbatim>\<open>log.Fatalln\<close>) or is still running when the
  answers are used up (\<open>Running\<close>).
\<close>

datatype indexer_process = Exited error "pod_index option" | Running "pod_index option"

fun podIndexer ::
  "pod_index option \<Rightarrow> pod_list_answer list \<Rightarrow> watch_answer list \<Rightarrow> indexer_process" where
  "podIndexer uidIndex [] ws = Running uidIndex"
| "podIndexer uidIndex (list_answer # answers) ws =
     (case internalPodIndexer uidIndex list_answer ws of
        Returns err uidIndex' ws' \<Rightarrow>
          (if reason_expired err then podIndexer uidIndex' answers ws'
           else Exited err uidIndex')
      | Fatal err uidIndex' \<Rightarrow> Exited err uidIndex'
      | Waiting uidIndex' \<Rightarrow> Running uidIndex')"

text \<open>
  The UIDs that a sequence of notifications adds and removes, the record of the
  latest add notification for a UID, and the sequences in which no UID is added
  again after it was removed.
\<close>

fun added_pods :: "watch_Event list \<Rightarrow> Pod list" where
  "added_pods [] = []"
| "added_pods (ev # evs) =
     (case Object ev of
        PodObject pod \<Rightarrow> (if Type ev = Added then pod # added_pods evs else added_pods evs)
      | EventObject e \<Rightarrow> added_pods evs
      | StatusObject reason msg \<Rightarrow> added_pods evs
      | OtherObject \<Rightarrow> added_pods evs)"

fun removed_pods :: "watch_Event list \<Rightarrow> Pod list" where
  "removed_pods [] = []"
| "removed_pods (ev # evs) =
     (case Object ev of
        PodObject pod \<Rightarrow> (if Type ev = Deleted then pod # removed_pods evs else removed_pods evs)
      | EventObject e \<Rightarrow> removed_pods evs
      | StatusObject reason msg \<Rightarrow> removed_pods evs
      | OtherObject \<Rightarrow> removed_pods evs)"

definition added_UIDs :: "watch_Event list \<Rightarrow> UID set" where
  "added_UIDs evs = pod_UID ` set (added_pods evs)"

definition removed_UIDs :: "watch_Event list \<Rightarrow> UID set" where
  "removed_UIDs evs = pod_UID ` set (removed_pods evs)"

definition latest_added :: "watch_Event list \<Rightarrow> UID \<rightharpoonup> PodInfo" where
  "latest_added evs = load_items Map.empty (added_pods evs)"

fun no_add_after_remove :: "watch_Event list \<Rightarrow> bool" where
  "no_add_after_remove [] = True"
| "no_add_after_remove (ev # evs) =
     ((case Object ev of
         PodObject pod \<Rightarrow> Type ev = Deleted \<longrightarrow> pod_UID pod \<notin> added_UIDs evs
       | EventObject e \<Rightarrow> True
       | StatusObject reason msg \<Rightarrow> True
       | OtherObject \<Rightarrow> True)
      \<and> no_add_after_remove evs)"

section \<open>The event watcher\<close>

text \<open>
  The end of the loop body of \<^verbatim>\<open>internalEventWatcher\<close>, for an event that passed the
  three filters: what is sent on the channel, in order.
  \<^verbatim>\<open>
  node := event.InvolvedObject.Name
  pid, err := extractPID(event.Message)
  if err != nil {
      c <- OOMEvent{
          Error: err,
      }
  }

  c <- OOMEvent{
      Node: node,
      PID:  pid,
  }
  \<close>
\<close>

definition send_OOMEvents :: "Event \<Rightarrow> OOMEvent list" where
  "send_OOMEvents event =
     (let node = InvolvedObject_Name event;
          r = extractPID (Message event)
      in (case err_of r of
            Some err \<Rightarrow> [\<lparr>Node = [], PID = 0, Error = Some err\<rparr>]
          | None \<Rightarrow> [])
         @ [\<lparr>Node = node, PID = pid_of r, Error = None\<rparr>])"

text \<open>
  The whole loop body, on the local \<^verbatim>\<open>resourceVersion\<close>: the new resource version
  and the events sent, or the error returned.
  \<^verbatim>\<open>
  if watchEvent.Type == watch.Error {
      return apierrs.FromObject(watchEvent.Object)
  }
  event, ok := watchEvent.Object.(*v1.Event)
  if !ok { log.Println(...); continue }
  resourceVersion = event.ResourceVersion
  if watchEvent.Type != watch.Added { continue }
  if event.Reason != "OOMKilling" { continue }
  if event.InvolvedObject.Kind != "Node" { continue }
  \<close>
\<close>

definition qualifying :: "watch_Event \<Rightarrow> Event \<Rightarrow> bool" where
  "qualifying watchEvent event \<longleftrightarrow>
     Type watchEvent = Added \<and> Object watchEvent = EventObject event
     \<and> Reason event = ''OOMKilling'' \<and> InvolvedObject_Kind event = ''Node''"

definition eventWatcher_event :: "string \<Rightarrow> watch_Event \<Rightarrow> error + (string \<times> OOMEvent list)" where
  "eventWatcher_event resourceVersion watchEvent =
     (if Type watchEvent = watch_Error then Inl (FromObject (Object watchEvent))
      else (case Object watchEvent of
              EventObject event \<Rightarrow>
                (if Type watchEvent \<noteq> Added then Inr (event_ResourceVersion event, [])
                 else if Reason event \<noteq> ''OOMKilling'' then Inr (event_ResourceVersion event, [])
                 else if InvolvedObject_Kind event \<noteq> ''Node''
                 then Inr (event_ResourceVersion event, [])
                 else Inr (event_ResourceVersion event, send_OOMEvents event))
            | PodObject p \<Rightarrow> Inr (resourceVersion, [])
            | StatusObject reason msg \<Rightarrow> Inr (resourceVersion, [])
            | OtherObject \<Rightarrow> Inr (resourceVersion, [])))"

text \<open>The events of one channel; what was sent before an error return stays sent.\<close>

fun eventWatcher_events ::
  "string \<Rightarrow> watch_Event list \<Rightarrow> error option \<times> string \<times> OOMEvent list" where
  "eventWatcher_events resourceVersion [] = (None, resourceVersion, [])"
| "eventWatcher_events resourceVersion (watchEvent # evs) =
     (case eventWatcher_event resourceVersion watchEvent of
        Inl err \<Rightarrow> (Some err, resourceVersion, [])
      | Inr (rv, out) \<Rightarrow>
          (case eventWatcher_events rv evs of (e, rv', out') \<Rightarrow> (e, rv', out @ out')))"

datatype watcher_run =
    EvReturns error "OOMEvent list" "watch_answer list"
  | EvWaiting "OOMEvent list"

fun eventWatcher_watch :: "string \<Rightarrow> watch_answer list \<Rightarrow> watcher_run" where
  "eventWatcher_watch resourceVersion [] = EvWaiting []"
| "eventWatcher_watch resourceVersion (WatchFails err # ws) = EvReturns err [] ws"
| "eventWatcher_watch resourceVersion (WatchStream evs # ws) =
     (case eventWatcher_events resourceVersion evs of
        (Some err, rv, out) \<Rightarrow> EvReturns err out ws
      | (None, rv, out) \<Rightarrow>
          (case eventWatcher_watch rv ws of
             EvReturns err out' ws' \<Rightarrow> EvReturns err (out @ out') ws'
           | EvWaiting out' \<Rightarrow> EvWaiting (out @ out')))"

text \<open>
  \<^verbatim>\<open>
  func internalEventWatcher(clientset *kubernetes.Clientset, c chan OOMEvent) error {
      list, err := clientset.CoreV1().Events("").List(...)
      if err != nil {
          return err
      }
      resourceVersion := list.ResourceVersion
      for { ... }
  }
  \<close>
\<close>

definition internalEventWatcher :: "event_list_answer \<Rightarrow> watch_answer list \<Rightarrow> watcher_run" where
  "internalEventWatcher list_answer ws =
     (case list_answer of
        Inl err \<Rightarrow> EvReturns err [] ws
      | Inr (items, resourceVersion) \<Rightarrow> eventWatcher_watch resourceVersion ws)"

text \<open>\<^verbatim>\<open>eventWatcher\<close>, the same loop as \<^verbatim>\<open>podIndexer\<close>, with all that was sent on
  the channel.\<close>

datatype watcher_process = EvExited error "OOMEvent list" | EvRunning "OOMEvent list"

fun eventWatcher :: "event_list_answer list \<Rightarrow> watch_answer list \<Rightarrow> watcher_process" where
  "eventWatcher [] ws = EvRunning []"
| "eventWatcher (list_answer # answers) ws =
     (case internalEventWatcher list_answer ws of
        EvReturns err out ws' \<Rightarrow>
          (if reason_expired err
           then (case eventWatcher answers ws' of
                   EvExited err' out' \<Rightarrow> EvExited err' (out @ out')
                 | EvRunning out' \<Rightarrow> EvRunning (out @ out'))
           else EvExited err out)
      | EvWaiting out \<Rightarrow> EvRunning out)"

section \<open>The notifier\<close>

text \<open>
  The webhook's side of \<^verbatim>\<open>http.Post\<close>, as the HTTP client sees it. The answer to
  one request is
  \<^item> \<open>TransportFails err\<close>: the client fails on this request and returns \<open>err\<close> (the
    URL cannot be used, the transport fails, the \<^verbatim>\<open>Location\<close> header of the response
    cannot be parsed);
  \<^item> \<open>Response code status\<close>: a response without \<^verbatim>\<open>Location\<close> header, with its
    \<^verbatim>\<open>StatusCode\<close> and \<^verbatim>\<open>Status\<close>, which the client hands to its caller;
  \<^item> \<open>Redirect code status loc\<close>: a response with the \<^verbatim>\<open>Location\<close> header \<open>loc\<close>, taken
    to be an absolute URL.
  The \<^verbatim>\<open>net/http\<close> of Go 1.13, which the \<^verbatim>\<open>Dockerfile\<close> builds with, does not hand over
  a response of status 301, 302 or 303 that has no \<^verbatim>\<open>Location\<close> header: it fails
  with "response missing Location header", which is a \<open>TransportFails\<close> here; later
  versions hand over every response without \<^verbatim>\<open>Location\<close> header.

  \<open>http_answers nf k\<close> is the answer to the request number \<open>k\<close> of the process. The
  requests that the client has made or has tried to make (a request that fails may
  not have reached the server) are kept in a list. A request is its method, its
  URL and its body together with the \<^verbatim>\<open>Content-Type\<close> it is sent with, or \<open>None\<close> when
  it has no body (the other headers are left out).
  \<^verbatim>\<open>json.Marshal\<close> is a parameter: it returns the encoding or an error.
\<close>

datatype http_answer = TransportFails error | Response int string | Redirect int string string

record request =
  req_method :: string
  req_url :: string
  req_payload :: "(string \<times> string) option"

record 'd notifier =
  json_Marshal :: "'d \<Rightarrow> error + string"
  webhookURL :: string
  http_answers :: "nat \<Rightarrow> http_answer"

text \<open>
  \<^verbatim>\<open>http.Post\<close> is \<^verbatim>\<open>DefaultClient.Post\<close>: it builds the POST request, sets its
  \<^verbatim>\<open>Content-Type\<close>, and runs the loop of \<^verbatim>\<open>(*Client).do\<close>, which follows redirects.
  \<^item> \<^verbatim>\<open>redirectBehavior\<close>: a response of status 301, 302 or 303 is followed by a
    request without body, whose method is GET unless the method was GET or HEAD;
    a response of status 307 or 308 is followed by a request of the same method
    with the body of the first request (\<^verbatim>\<open>NewRequest\<close> sets \<^verbatim>\<open>GetBody\<close> for a
    \<^verbatim>\<open>*bytes.Buffer\<close>); a response of any other status is handed to the caller,
    and so is one without \<^verbatim>\<open>Location\<close> header.
  \<^item> \<^verbatim>\<open>defaultCheckRedirect\<close>: \<^verbatim>\<open>if len(via) >= 10\<close> the loop ends with the error
    "stopped after 10 redirects" (in a \<^verbatim>\<open>*url.Error\<close>, whose text has the URL in
    quotes since Go 1.14). \<open>left\<close> is the number of requests that may still follow
    the present one: 9 for the first.
  \<^verbatim>\<open>
  for {
      if len(reqs) > 0 {
          loc := resp.Header.Get("Location")
          ...
          req = &Request{Method: redirectMethod, URL: u, ...}
          if includeBody && ireq.GetBody != nil {
              req.Body, err = ireq.GetBody()
              ...
          }
          err = c.checkRedirect(req, reqs)
          ...
          if err != nil {
              ue := uerr(err)
              ue.(*url.Error).URL = loc
              return resp, ue
          }
      }
      reqs = append(reqs, req)
      if resp, didTimeout, err = c.send(req, deadline); err != nil {
          ...
          return nil, uerr(err)
      }
      redirectMethod, shouldRedirect, includeBody = redirectBehavior(req.Method, resp, reqs[0])
      if !shouldRedirect {
          return resp, nil
      }
  }
  \<close>
  \<open>followed a\<close> says that the client goes on with another request after the
  answer \<open>a\<close> (if it still may), \<open>status_of a\<close> is the status of a response.
\<close>

definition followed :: "http_answer \<Rightarrow> bool" where
  "followed a =
     (case a of
        TransportFails err \<Rightarrow> False
      | Response code status \<Rightarrow> False
      | Redirect code status loc \<Rightarrow> code \<in> {301, 302, 303, 307, 308})"

definition status_of :: "http_answer \<Rightarrow> (int \<times> string) option" where
  "status_of a =
     (case a of
        TransportFails err \<Rightarrow> None
      | Response code status \<Rightarrow> Some (code, status)
      | Redirect code status loc \<Rightarrow> Some (code, status))"

definition redirect_request :: "string \<times> string \<Rightarrow> request \<Rightarrow> int \<Rightarrow> string \<Rightarrow> request" where
  "redirect_request payload req code loc =
     \<lparr>req_method =
        (if code \<in> {301, 302, 303} \<and> req_method req \<noteq> ''GET'' \<and> req_method req \<noteq> ''HEAD''
         then ''GET'' else req_method req),
      req_url = loc,
      req_payload = (if code \<in> {307, 308} then Some payload else None)\<rparr>"

definition stopped_after_10 :: "string \<Rightarrow> error" where
  "stopped_after_10 loc =
     OtherError (''Post '' @ [CHR 0x22] @ loc @ [CHR 0x22] @ '': stopped after 10 redirects'')"

fun Client_do ::
  "(nat \<Rightarrow> http_answer) \<Rightarrow> string \<times> string \<Rightarrow> nat \<Rightarrow> request \<Rightarrow> request list
     \<Rightarrow> (error + int \<times> string) \<times> request list" where
  "Client_do answers payload left req sent =
     (case answers (length sent) of
        TransportFails err \<Rightarrow> (Inl err, sent @ [req])
      | Response code status \<Rightarrow> (Inr (code, status), sent @ [req])
      | Redirect code status loc \<Rightarrow>
          (if code \<in> {301, 302, 303, 307, 308}
           then (case left of
                   0 \<Rightarrow> (Inl (stopped_after_10 loc), sent @ [req])
                 | Suc left' \<Rightarrow>
                     Client_do answers payload left' (redirect_request payload req code loc)
                       (sent @ [req]))
           else (Inr (code, status), sent @ [req])))"

declare Client_do.simps [simp del]

definition http_Post ::
  "(nat \<Rightarrow> http_answer) \<Rightarrow> request list \<Rightarrow> string \<Rightarrow> string \<Rightarrow> string
     \<Rightarrow> (error + int \<times> string) \<times> request list" where
  "http_Post answers sent url contentType body =
     Client_do answers (contentType, body) 9
       \<lparr>req_method = ''POST'', req_url = url, req_payload = Some (contentType, body)\<rparr> sent"

text \<open>
  \<^verbatim>\<open>
  func postMessage(data interface{}) error {
      jsonValue, err := json.Marshal(data)
      if err != nil {
          return err
      }
      resp, err := http.Post(webhookURL, "application/json", bytes.NewBuffer(jsonValue))
      if err != nil {
          return err
      }
      if resp.StatusCode < 200 || resp.StatusCode > 299 {
          return fmt.Errorf("Failed to POST: %s", resp.Status)
      }
      return nil
  }
  \<close>
  The result is the error (\<open>None\<close> for nil) and the requests made so far.
\<close>

definition postMessage ::
  "'d notifier \<Rightarrow> request list \<Rightarrow> 'd \<Rightarrow> error option \<times> request list" where
  "postMessage nf sent data =
     (case json_Marshal nf data of
        Inl err \<Rightarrow> (Some err, sent)
      | Inr jsonValue \<Rightarrow>
          (case http_Post (http_answers nf) sent (webhookURL nf) ''application/json'' jsonValue of
             (Inl err, sent') \<Rightarrow> (Some err, sent')
           | (Inr (StatusCode, Status), sent') \<Rightarrow>
               (if StatusCode < 200 \<or> StatusCode > 299
                then (Some (PostFailed Status), sent')
                else (None, sent'))))"

section \<open>Messages\<close>

text \<open>The verb \<^verbatim>\<open>%d\<close> of \<^verbatim>\<open>fmt\<close> on an unsigned integer: its decimal digits.\<close>

function format_d :: "nat \<Rightarrow> string" where
  "format_d n = (if n < 10 then [char_of (48 + n)]
                 else format_d (n div 10) @ [char_of (48 + n mod 10)])"
  by pat_completeness auto
termination
  by (relation "measure id") auto

declare format_d.simps [simp del]

text \<open>
  \<^verbatim>\<open>err.Error()\<close>. The text of a \<^verbatim>\<open>*strconv.NumError\<close> quotes its input, which here
  is a string of digits; the text of a \<^verbatim>\<open>*StatusError\<close> is its message; the text of
  an \<^verbatim>\<open>*UnexpectedObjectError\<close> goes on with a printout of the object, which is
  left out.
\<close>

fun Error_text :: "error \<Rightarrow> string" where
  "Error_text (NoMatch message) = ''Event message does not match: '' @ message"
| "Error_text (NumError d ErrSyntax) =
     ''strconv.ParseUint: parsing '' @ [CHR 0x22] @ d @ [CHR 0x22] @ '': invalid syntax''"
| "Error_text (NumError d ErrRange) =
     ''strconv.ParseUint: parsing '' @ [CHR 0x22] @ d @ [CHR 0x22] @ '': value out of range''"
| "Error_text (UnknownCgroup c) = ''Unknown cgroup format: '' @ c"
| "Error_text (NoPsRecord node p) =
     ''No ps record for node '' @ node @ '' and PID '' @ format_d (unat p)"
| "Error_text IndexNotReady = ''UID index not ready''"
| "Error_text (PodNotKnown uid) = ''Pod with UID '' @ uid @ '' is not known''"
| "Error_text (PostFailed st) = ''Failed to POST: '' @ st"
| "Error_text (StatusError reason msg) = msg"
| "Error_text UnexpectedObjectError = ''unexpected object''"
| "Error_text (OtherError msg) = msg"

text \<open>
  \<^verbatim>\<open>
  func handleError(err error) error {
      return postMessage(map[string]string{
          "username": "OOM watcher",
          "text":     fmt.Sprint("Error: ", err),
      })
  }
  \<close>
\<close>

type_synonym payload = "string \<rightharpoonup> string"

definition handleError ::
  "payload notifier \<Rightarrow> request list \<Rightarrow> error \<Rightarrow> error option \<times> request list" where
  "handleError nf sent err =
     postMessage nf sent
       [''username'' \<mapsto> ''OOM watcher'', ''text'' \<mapsto> ''Error: '' @ Error_text err]"

section \<open>The process-record store and the correlation\<close>

text \<open>
  A row of the table \<^verbatim>\<open>records\<close>, with the columns the statement names. The database
  either fails (the driver, the server or \<^verbatim>\<open>Scan\<close>, with an error that is not
  \<^verbatim>\<open>sql.ErrNoRows\<close>) or runs the statement on its table, at its
  \<^verbatim>\<open>current_timestamp\<close>.
\<close>

record ps_record =
  rec_hostname :: string
  rec_pid :: uint64
  rec_ts :: int
  rec_cgroup :: string
  rec_nspid :: uint64

datatype db_state = DbFails error | DbTable "ps_record list" int

text \<open>
  \<^verbatim>\<open>
  SELECT cgroup, nspid
  FROM records
  WHERE
      hostname = $1 AND
      pid = $2 AND
      ts < current_timestamp
  ORDER BY ts DESC
  LIMIT 1
  \<close>
  \<open>latest\<close> is \<^verbatim>\<open>ORDER BY ts DESC LIMIT 1\<close>: a row of the greatest \<^verbatim>\<open>ts\<close>. Among
  rows of the same \<^verbatim>\<open>ts\<close> SQL leaves the choice open; this one takes the first.
\<close>

fun latest :: "ps_record list \<Rightarrow> ps_record option" where
  "latest [] = None"
| "latest (r # rs) =
     (case latest rs of
        None \<Rightarrow> Some r
      | Some r' \<Rightarrow> (if rec_ts r < rec_ts r' then Some r' else Some r))"

definition select_record :: "ps_record list \<Rightarrow> int \<Rightarrow> string \<Rightarrow> uint64 \<Rightarrow> ps_record option" where
  "select_record records current_timestamp node p =
     latest (filter (\<lambda>r. rec_hostname r = node \<and> rec_pid r = p \<and> rec_ts r < current_timestamp)
               records)"

text \<open>The selection as the specification words it: \<open>timestamp \<le> now\<close>.\<close>

definition spec_select_record ::
  "ps_record list \<Rightarrow> int \<Rightarrow> string \<Rightarrow> uint64 \<Rightarrow> ps_record option" where
  "spec_select_record records now node p =
     latest (filter (\<lambda>r. rec_hostname r = node \<and> rec_pid r = p \<and> rec_ts r \<le> now) records)"

text \<open>\<^verbatim>\<open>db.QueryRow(...).Scan(&cgroup, &nspid)\<close>\<close>

datatype query_result = ErrNoRows | QueryError error | Row string uint64

definition QueryRow :: "db_state \<Rightarrow> string \<Rightarrow> uint64 \<Rightarrow> query_result" where
  "QueryRow db node p =
     (case db of
        DbFails err \<Rightarrow> QueryError err
      | DbTable records current_timestamp \<Rightarrow>
          (case select_record records current_timestamp node p of
             None \<Rightarrow> ErrNoRows
           | Some r \<Rightarrow> Row (rec_cgroup r) (rec_nspid r)))"

text \<open>
  \<^verbatim>\<open>
  func handleOOM(event OOMEvent) error {
      var cgroup string
      var nspid uint64
      err := db.QueryRow(..., event.Node, event.PID).Scan(&cgroup, &nspid)
      if err == sql.ErrNoRows {
          return fmt.Errorf("No ps record for node %s and PID %d", event.Node, event.PID)
      }
      if err != nil {
          return err
      }
      uid, err := extractUID(cgroup)
      if err != nil {
          return err
      }
      if uidIndex == nil {
          return fmt.Errorf("UID index not ready")
      }
      pod, ok := (*uidIndex)[uid]
      if !ok {
          return fmt.Errorf("Pod with UID %s is not known", uid)
      }
      return postMessage(map[string]string{
          "username": "OOM watcher",
          "text":     fmt.Sprintf("OOM in pod %s/%s (node: %s, PID: %d, NSPID: %d)",
                          pod.Namespace, pod.Name, event.Node, event.PID, nspid),
      })
  }
  \<close>
  The globals \<^verbatim>\<open>db\<close> and \<^verbatim>\<open>uidIndex\<close>, as they are when the function runs, are
  the arguments \<open>db\<close> and \<open>uidIndex\<close>.
\<close>

definition oom_text :: "PodInfo \<Rightarrow> OOMEvent \<Rightarrow> uint64 \<Rightarrow> string" where
  "oom_text pod event nspid =
     ''OOM in pod '' @ Namespace pod @ ''/'' @ Name pod @ '' (node: '' @ Node event
       @ '', PID: '' @ format_d (unat (PID event)) @ '', NSPID: '' @ format_d (unat nspid) @ '')''"

definition handleOOM ::
  "payload notifier \<Rightarrow> db_state \<Rightarrow> pod_index option \<Rightarrow> request list \<Rightarrow> OOMEvent
     \<Rightarrow> error option \<times> request list" where
  "handleOOM nf db uidIndex sent event =
     (case QueryRow db (Node event) (PID event) of
        ErrNoRows \<Rightarrow> (Some (NoPsRecord (Node event) (PID event)), sent)
      | QueryError err \<Rightarrow> (Some err, sent)
      | Row cgroup nspid \<Rightarrow>
          (case extractUID cgroup of
             Inl err \<Rightarrow> (Some err, sent)
           | Inr uid \<Rightarrow>
               (case uidIndex of
                  None \<Rightarrow> (Some IndexNotReady, sent)
                | Some index \<Rightarrow>
                    (case index uid of
                       None \<Rightarrow> (Some (PodNotKnown uid), sent)
                     | Some pod \<Rightarrow>
                         postMessage nf sent
                           [''username'' \<mapsto> ''OOM watcher'',
                            ''text'' \<mapsto> oom_text pod event nspid]))))"

section \<open>The consumer loop\<close>

text \<open>
  \<^verbatim>\<open>
  for oomEvent := range eventCh {
      var err error
      if oomEvent.Error == nil {
          err = handleOOM(oomEvent)
          if err != nil {
              err = handleError(err)
          }
      } else {
          err = handleError(oomEvent.Error)
      }
      if err != nil {
          log.Println(err)
      }
  }
  \<close>
  The state of the loop is the list of requests made and the list of errors logged.
  The other two goroutines and the database change what an iteration reads, so that
  every event of the channel comes with the database and the \<^verbatim>\<open>uidIndex\<close> of its
  iteration.
\<close>

record main_state =
  posted :: "request list"
  logged :: "error list"

record arrival =
  arr_db :: db_state
  arr_uidIndex :: "pod_index option"
  arr_event :: OOMEvent

definition log_Println :: "main_state \<Rightarrow> error option \<times> request list \<Rightarrow> main_state" where
  "log_Println st r =
     (case fst r of
        None \<Rightarrow> \<lparr>posted = snd r, logged = logged st\<rparr>
      | Some err \<Rightarrow> \<lparr>posted = snd r, logged = logged st @ [err]\<rparr>)"

definition main_iteration :: "payload notifier \<Rightarrow> main_state \<Rightarrow> arrival \<Rightarrow> main_state" where
  "main_iteration nf st a =
     (case Error (arr_event a) of
        None \<Rightarrow>
          (case handleOOM nf (arr_db a) (arr_uidIndex a) (posted st) (arr_event a) of
             (None, sent') \<Rightarrow> log_Println st (None, sent')
           | (Some err, sent') \<Rightarrow> log_Println st (handleError nf sent' err))
      | Some err \<Rightarrow> log_Println st (handleError nf (posted st) err))"

fun main_loop :: "payload notifier \<Rightarrow> main_state \<Rightarrow> arrival list \<Rightarrow> main_state" where
  "main_loop nf st [] = st"
| "main_loop nf st (a # as) = main_loop nf (main_iteration nf st a) as"

section \<open>Properties of the regular expressions\<close>

lemma first_some_None_iff: "first_some f xs = None \<longleftrightarrow> (\<forall>x\<in>set xs. f x = None)"
  by (induction xs) (auto split: option.splits)

lemma first_some_SomeD: "first_some f xs = Some y \<Longrightarrow> \<exists>x\<in>set xs. f x = Some y"
  by (induction xs) (auto split: option.splits)

lemma le_takeWhile_iff:
  "k \<le> length (takeWhile c s) \<longleftrightarrow> k \<le> length s \<and> list_all c (take k s)"
proof (induction s arbitrary: k)
  case Nil
  then show ?case by simp
next
  case (Cons x xs)
  show ?case
  proof (cases k)
    case 0
    then show ?thesis by simp
  next
    case (Suc j)
    then show ?thesis by (auto simp: Cons.IH)
  qed
qed

lemma set_greedy_lengths:
  "set (greedy_lengths c s) = {k. 1 \<le> k \<and> k \<le> length s \<and> list_all c (take k s)}"
proof -
  have "set (greedy_lengths c s) = {k. 1 \<le> k \<and> k \<le> length (takeWhile c s)}"
    by (auto simp: greedy_lengths_def)
  then show ?thesis by (simp add: le_takeWhile_iff)
qed

lemma match_here_sound:
  "match_here re s = Some (n, caps) \<Longrightarrow> n \<le> length s \<and> denotes re (take n s) caps"
proof (induction re arbitrary: s n caps)
  case Nil
  then show ?case by simp
next
  case (Cons it r)
  show ?case
  proof (cases it)
    case (Lit l)
    from Cons.prems Lit obtain m where l: "take (length l) s = l"
      and m: "match_here r (drop (length l) s) = Some (m, caps)" and n: "n = length l + m"
      by (auto split: if_splits option.splits)
    from Cons.IH [OF m] have m_le: "m \<le> length s - length l"
      and d: "denotes r (take m (drop (length l) s)) caps" by auto
    have "length (take (length l) s) = length l" by (simp only: l)
    then have len: "length l \<le> length s" by simp
    have "take n s = l @ take m (drop (length l) s)"
      using l n by (metis take_add)
    with d m_le len n Lit show ?thesis by auto
  next
    case (Plus c)
    from Cons.prems Plus obtain k where k: "k \<in> set (greedy_lengths c s)"
      and s: "(case match_here r (drop k s) of None \<Rightarrow> None
                | Some (n, caps) \<Rightarrow> Some (k + n, caps)) = Some (n, caps)"
      by (auto dest: first_some_SomeD)
    from s obtain m where m: "match_here r (drop k s) = Some (m, caps)" and n: "n = k + m"
      by (auto split: option.splits)
    from k have k1: "1 \<le> k" "k \<le> length s" "list_all c (take k s)"
      by (auto simp: set_greedy_lengths)
    from Cons.IH [OF m] have m_le: "m \<le> length s - k"
      and d: "denotes r (take m (drop k s)) caps" by auto
    have tk: "take n s = take k s @ take m (drop k s)"
      using n by (simp add: take_add)
    have ne: "take k s \<noteq> []" using k1 by auto
    have "\<exists>a w'. take k s @ take m (drop k s) = a @ w' \<and> a \<noteq> [] \<and> list_all c a
        \<and> denotes r w' caps"
      using d ne k1(3) by blast
    then have "denotes (Plus c # r) (take k s @ take m (drop k s)) caps"
      by (simp only: denotes.simps)
    then have "denotes (it # r) (take n s) caps" by (simp only: tk Plus)
    moreover have "n \<le> length s" using m_le k1(2) n by simp
    ultimately show ?thesis by blast
  next
    case (CapPlus c)
    from Cons.prems CapPlus obtain k where k: "k \<in> set (greedy_lengths c s)"
      and s: "(case match_here r (drop k s) of None \<Rightarrow> None
                | Some (n, caps) \<Rightarrow> Some (k + n, take k s # caps)) = Some (n, caps)"
      by (auto dest: first_some_SomeD)
    from s obtain m caps' where m: "match_here r (drop k s) = Some (m, caps')"
      and n: "n = k + m" and caps: "caps = take k s # caps'"
      by (auto split: option.splits)
    from k have k1: "1 \<le> k" "k \<le> length s" "list_all c (take k s)"
      by (auto simp: set_greedy_lengths)
    from Cons.IH [OF m] have m_le: "m \<le> length s - k"
      and d: "denotes r (take m (drop k s)) caps'" by auto
    have tk: "take n s = take k s @ take m (drop k s)"
      using n by (simp add: take_add)
    have ne: "take k s \<noteq> []" using k1 by auto
    have "\<exists>a w' caps''. take k s @ take m (drop k s) = a @ w' \<and> a \<noteq> [] \<and> list_all c a
        \<and> take k s # caps' = a # caps'' \<and> denotes r w' caps''"
      using d ne k1(3) by blast
    then have "denotes (CapPlus c # r) (take k s @ take m (drop k s)) (take k s # caps')"
      by (simp only: denotes.simps)
    then have "denotes (it # r) (take n s) caps" by (simp only: tk CapPlus caps)
    moreover have "n \<le> length s" using m_le k1(2) n by simp
    ultimately show ?thesis by blast
  qed
qed

lemma match_here_complete:
  "denotes re w caps \<Longrightarrow> match_here re (w @ post) \<noteq> None"
proof (induction re arbitrary: w caps)
  case Nil
  then show ?case by simp
next
  case (Cons it r)
  show ?case
  proof (cases it)
    case (Lit l)
    with Cons.prems obtain w' where w: "w = l @ w'" and d: "denotes r w' caps" by auto
    from Cons.IH [OF d] show ?thesis using Lit w by auto
  next
    case (Plus c)
    with Cons.prems obtain a w' where w: "w = a @ w'" and a: "a \<noteq> []" "list_all c a"
      and d: "denotes r w' caps" by auto
    have "length a \<in> set (greedy_lengths c (w @ post))"
      using a w by (cases a) (auto simp: set_greedy_lengths)
    moreover have "match_here r (drop (length a) (w @ post)) \<noteq> None"
      using Cons.IH [OF d] w by simp
    ultimately show ?thesis using Plus
      by (auto simp: first_some_None_iff split: option.splits)
  next
    case (CapPlus c)
    with Cons.prems obtain a w' caps' where w: "w = a @ w'" and a: "a \<noteq> []" "list_all c a"
      and d: "denotes r w' caps'" by auto
    have "length a \<in> set (greedy_lengths c (w @ post))"
      using a w by (cases a) (auto simp: set_greedy_lengths)
    moreover have "match_here r (drop (length a) (w @ post)) \<noteq> None"
      using Cons.IH [OF d] w by simp
    ultimately show ?thesis using CapPlus
      by (auto simp: first_some_None_iff split: option.splits)
  qed
qed

lemma FindStringSubmatch_None_iff:
  "FindStringSubmatch re s = None \<longleftrightarrow> (\<forall>i\<le>length s. match_here re (drop i s) = None)"
proof (induction s)
  case Nil
  then show ?case by (auto split: option.splits)
next
  case (Cons x xs)
  have "(\<forall>i\<le>length (x # xs). match_here re (drop i (x # xs)) = None)
     \<longleftrightarrow> match_here re (x # xs) = None \<and> (\<forall>i\<le>length xs. match_here re (drop i xs) = None)"
    (is "?L \<longleftrightarrow> ?R")
  proof
    assume l: ?L
    have "match_here re (drop (Suc i) (x # xs)) = None" if "i \<le> length xs" for i
      using l that by (metis Suc_le_mono length_Cons)
    moreover have "match_here re (drop 0 (x # xs)) = None" using l by blast
    ultimately show ?R by simp
  next
    assume r: ?R
    show ?L
    proof (intro allI impI)
      fix i assume "i \<le> length (x # xs)"
      then show "match_here re (drop i (x # xs)) = None" using r by (cases i) auto
    qed
  qed
  with Cons.IH show ?case by (auto split: option.splits)
qed

lemma FindStringSubmatch_SomeD:
  "FindStringSubmatch re s = Some m \<Longrightarrow>
     \<exists>i n caps. i \<le> length s \<and> match_here re (drop i s) = Some (n, caps)
       \<and> m = take n (drop i s) # caps \<and> (\<forall>j<i. match_here re (drop j s) = None)"
proof (induction s)
  case Nil
  then show ?case by (auto split: option.splits)
next
  case (Cons x xs)
  show ?case
  proof (cases "match_here re (x # xs)")
    case None
    with Cons.prems have "FindStringSubmatch re xs = Some m" by simp
    from Cons.IH [OF this] obtain i n caps where i: "i \<le> length xs"
      "match_here re (drop i xs) = Some (n, caps)" "m = take n (drop i xs) # caps"
      "\<forall>j<i. match_here re (drop j xs) = None" by blast
    have "\<forall>j<Suc i. match_here re (drop j (x # xs)) = None"
    proof (intro allI impI)
      fix j assume "j < Suc i"
      then show "match_here re (drop j (x # xs)) = None" using None i(4) by (cases j) auto
    qed
    with i show ?thesis
      by (intro exI [of _ "Suc i"] exI [of _ n] exI [of _ caps]) simp
  next
    case (Some p)
    obtain n caps where p: "p = (n, caps)" by (cases p)
    with Some Cons.prems have "m = take n (x # xs) # caps" by simp
    with Some p show ?thesis
      by (intro exI [of _ 0] exI [of _ n] exI [of _ caps]) simp
  qed
qed

lemma takeWhile_append_all: "list_all P a \<Longrightarrow> takeWhile P (a @ b) = a @ takeWhile P b"
  by (induction a) auto

lemma run_unique:
  assumes "a @ b = a' @ b'" "list_all P a" "list_all P a'"
    "takeWhile P b = []" "takeWhile P b' = []"
  shows "a = a' \<and> b = b'"
proof -
  have 1: "takeWhile P (a @ b) = a"
    using assms(2,4) by (simp add: takeWhile_append_all)
  have 2: "takeWhile P (a' @ b') = a'"
    using assms(3,5) by (simp add: takeWhile_append_all)
  from 1 have "takeWhile P (a' @ b') = a" by (simp only: assms(1))
  with 2 have "a = a'" by simp
  with assms(1) show ?thesis by simp
qed

lemma denotes_LitI: "denotes r w caps \<Longrightarrow> denotes (Lit l # r) (l @ w) caps"
  by (simp only: denotes.simps) blast

lemma denotes_PlusI:
  "a \<noteq> [] \<Longrightarrow> list_all c a \<Longrightarrow> denotes r w caps \<Longrightarrow> denotes (Plus c # r) (a @ w) caps"
  by (simp only: denotes.simps) blast

lemma denotes_CapPlusI:
  "a \<noteq> [] \<Longrightarrow> list_all c a \<Longrightarrow> denotes r w caps
     \<Longrightarrow> denotes (CapPlus c # r) (a @ w) (a # caps)"
  by (simp only: denotes.simps) blast

lemma denotes_cgroupRegExp:
  "denotes cgroupRegExp w caps \<longleftrightarrow>
     (\<exists>u. w = ''/pod'' @ u @ ''/'' \<and> u \<noteq> [] \<and> list_all word_or_dash u \<and> caps = [u])"
  unfolding cgroupRegExp_def by (simp only: denotes.simps) auto

lemma denotes_pidRegExp:
  "denotes pidRegExp w caps \<longleftrightarrow>
     (\<exists>ws1 ws2 d. w = ''Kill'' @ ws1 @ ''process'' @ ws2 @ d
        \<and> ws1 \<noteq> [] \<and> list_all perl_space ws1 \<and> ws2 \<noteq> [] \<and> list_all perl_space ws2
        \<and> d \<noteq> [] \<and> list_all perl_digit d \<and> caps = [d])"
  (is "?L \<longleftrightarrow> ?R")
proof
  assume ?L
  then obtain w1 a1 w2 w3 a2 w4 a3 w5 caps' where f:
    "w = ''Kill'' @ w1" "w1 = a1 @ w2" "a1 \<noteq> []" "list_all perl_space a1"
    "w2 = ''process'' @ w3" "w3 = a2 @ w4" "a2 \<noteq> []" "list_all perl_space a2"
    "w4 = a3 @ w5" "a3 \<noteq> []" "list_all perl_digit a3" "caps = a3 # caps'"
    "w5 = []" "caps' = []"
    unfolding pidRegExp_def denotes.simps by blast
  have "w = ''Kill'' @ a1 @ ''process'' @ a2 @ a3" "caps = [a3]"
    by (simp_all only: f append_Nil2)
  with f(3,4,7,8,10,11) show ?R by blast
next
  assume ?R
  then obtain ws1 ws2 d where *: "w = ''Kill'' @ ws1 @ ''process'' @ ws2 @ d"
    "ws1 \<noteq> []" "list_all perl_space ws1" "ws2 \<noteq> []" "list_all perl_space ws2"
    "d \<noteq> []" "list_all perl_digit d" "caps = [d]"
    by blast
  have w': "w = ''Kill'' @ ws1 @ ''process'' @ ws2 @ d @ []"
    by (simp only: *(1) append_Nil2)
  have "denotes [] [] []" by simp
  then have "denotes [CapPlus perl_digit] (d @ []) [d]"
    using *(6,7) by (rule denotes_CapPlusI [rotated 2])
  then have "denotes [Plus perl_space, CapPlus perl_digit] (ws2 @ d @ []) [d]"
    using *(4,5) by (rule denotes_PlusI [rotated 2])
  then have "denotes [Lit ''process'', Plus perl_space, CapPlus perl_digit]
      (''process'' @ ws2 @ d @ []) [d]"
    by (rule denotes_LitI)
  then have "denotes [Plus perl_space, Lit ''process'', Plus perl_space, CapPlus perl_digit]
      (ws1 @ ''process'' @ ws2 @ d @ []) [d]"
    using *(2,3) by (rule denotes_PlusI [rotated 2])
  then have "denotes pidRegExp (''Kill'' @ ws1 @ ''process'' @ ws2 @ d @ []) [d]"
    unfolding pidRegExp_def by (rule denotes_LitI)
  then show ?L by (simp only: w' *(8))
qed

lemma match_here_step:
  assumes "match_here (it # r) s = Some (n, caps)"
  shows "\<exists>k m caps'. k \<le> n \<and> match_here r (drop k s) = Some (m, caps') \<and> n = k + m"
proof (cases it)
  case (Lit l)
  with assms obtain m where "match_here r (drop (length l) s) = Some (m, caps)"
    "n = length l + m"
    by (auto split: if_splits option.splits)
  then show ?thesis
    by (intro exI [of _ "length l"] exI [of _ m] exI [of _ caps]) simp
next
  case (Plus c)
  with assms obtain k where
    "(case match_here r (drop k s) of None \<Rightarrow> None
      | Some (n, caps) \<Rightarrow> Some (k + n, caps)) = Some (n, caps)"
    by (auto dest: first_some_SomeD)
  then obtain m where "match_here r (drop k s) = Some (m, caps)" "n = k + m"
    by (auto split: option.splits)
  then show ?thesis
    by (intro exI [of _ k] exI [of _ m] exI [of _ caps]) simp
next
  case (CapPlus c)
  with assms obtain k where
    "(case match_here r (drop k s) of None \<Rightarrow> None
      | Some (n, caps) \<Rightarrow> Some (k + n, take k s # caps)) = Some (n, caps)"
    by (auto dest: first_some_SomeD)
  then obtain m caps' where "match_here r (drop k s) = Some (m, caps')" "n = k + m"
    by (auto split: option.splits)
  then show ?thesis
    by (intro exI [of _ k] exI [of _ m] exI [of _ caps']) simp
qed

lemma takeWhile_dropWhile_Nil: "takeWhile P (dropWhile P xs) = []"
  by (induction xs) auto

lemma match_here_last_greedy:
  "match_here (r @ [CapPlus c]) s = Some (n, caps) \<Longrightarrow> takeWhile c (drop n s) = []"
proof (induction r arbitrary: s n caps)
  case Nil
  let ?L = "length (takeWhile c s)"
  show ?case
  proof (cases "?L = 0")
    case True
    then have "greedy_lengths c s = []" by (simp add: greedy_lengths_def)
    with Nil show ?thesis by simp
  next
    case False
    then have "greedy_lengths c s = ?L # rev [1 ..< ?L]"
      by (cases "takeWhile c s") (simp_all add: greedy_lengths_def)
    with Nil have "n = ?L" by simp
    then have "drop n s = dropWhile c s"
      by (metis dropWhile_eq_drop)
    then show ?thesis by (simp add: takeWhile_dropWhile_Nil)
  qed
next
  case (Cons it r)
  then have "match_here (it # (r @ [CapPlus c])) s = Some (n, caps)" by simp
  from match_here_step [OF this] obtain k m caps' where
    "match_here (r @ [CapPlus c]) (drop k s) = Some (m, caps')" "n = k + m" by blast
  with Cons.IH [of "drop k s" m caps'] show ?case by (simp add: add.commute)
qed

lemma FindStringSubmatch_Some_decomp:
  assumes "FindStringSubmatch re s = Some m"
  shows "\<exists>pre w post caps. s = pre @ w @ post \<and> denotes re w caps \<and> m = w # caps
           \<and> match_here re (w @ post) = Some (length w, caps)
           \<and> (\<forall>j<length pre. match_here re (drop j s) = None)"
proof -
  from FindStringSubmatch_SomeD [OF assms] obtain i n caps where i: "i \<le> length s"
    and mh: "match_here re (drop i s) = Some (n, caps)"
    and m: "m = take n (drop i s) # caps"
    and none: "\<forall>j<i. match_here re (drop j s) = None" by blast
  from match_here_sound [OF mh] have n: "n \<le> length (drop i s)"
    and d: "denotes re (take n (drop i s)) caps" by auto
  let ?pre = "take i s" and ?w = "take n (drop i s)" and ?post = "drop n (drop i s)"
  have wp: "?w @ ?post = drop i s" by (rule append_take_drop_id)
  have s: "s = ?pre @ ?w @ ?post" by (simp only: wp append_take_drop_id)
  have lw: "length ?w = n" using n by simp
  have lp: "length ?pre = i" using i by simp
  have "match_here re (?w @ ?post) = Some (length ?w, caps)"
    by (simp only: wp lw mh)
  moreover have "\<forall>j<length ?pre. match_here re (drop j s) = None"
    using none by (simp only: lp)
  ultimately show ?thesis using s d m by blast
qed

lemma FindStringSubmatch_leftmost:
  assumes s: "s = pre @ w @ post" and d: "denotes re w caps"
    and leftmost: "\<forall>pre' w' post' caps'. s = pre' @ w' @ post' \<and> denotes re w' caps'
        \<longrightarrow> length pre \<le> length pre'"
  shows "\<exists>w' post' caps'. FindStringSubmatch re s = Some (w' # caps')
           \<and> w' @ post' = w @ post \<and> denotes re w' caps'
           \<and> match_here re (w' @ post') = Some (length w', caps')"
proof -
  have at_pre: "match_here re (drop (length pre) s) \<noteq> None"
    using match_here_complete [OF d, of post] s by simp
  have "length pre \<le> length s" using s by simp
  with at_pre have "FindStringSubmatch re s \<noteq> None"
    by (auto simp: FindStringSubmatch_None_iff)
  then obtain m where m: "FindStringSubmatch re s = Some m"
    by (cases "FindStringSubmatch re s") simp_all
  from FindStringSubmatch_Some_decomp [OF m] obtain pre2 w2 post2 caps2 where
    s2: "s = pre2 @ w2 @ post2" and d2: "denotes re w2 caps2" and m2: "m = w2 # caps2"
    and mh2: "match_here re (w2 @ post2) = Some (length w2, caps2)"
    and none: "\<forall>j<length pre2. match_here re (drop j s) = None" by blast
  have "\<not> length pre < length pre2"
  proof
    assume "length pre < length pre2"
    with spec [OF none, of "length pre"]
    have "match_here re (drop (length pre) s) = None" by (rule mp)
    with at_pre show False by simp
  qed
  moreover have "length pre \<le> length pre2" using leftmost s2 d2 by blast
  ultimately have len: "length pre2 = length pre" by simp
  have "take (length pre) s = pre" using s by simp
  moreover have "take (length pre2) s = pre2" using s2 by simp
  ultimately have "pre2 = pre" using len by simp
  with s s2 have "w2 @ post2 = w @ post" by simp
  with m m2 d2 mh2 show ?thesis by blast
qed

lemma not_word_or_dash_slash: "\<not> word_or_dash CHR ''/''"
  by (simp add: word_or_dash_def perl_word_def perl_digit_def)

lemma not_perl_space_p: "\<not> perl_space CHR ''p''"
  by (simp add: perl_space_def)

lemma perl_digit_not_space: "perl_digit c \<Longrightarrow> \<not> perl_space c"
  by (auto simp: perl_digit_def perl_space_def)

lemma extractUID_no_segment:
  assumes "\<not> (\<exists>pre u post. pod_segment_at cgroup pre u post)"
  shows "extractUID cgroup = Inl (UnknownCgroup cgroup)"
proof -
  have "FindStringSubmatch cgroupRegExp cgroup = None"
  proof (rule ccontr)
    assume "FindStringSubmatch cgroupRegExp cgroup \<noteq> None"
    then obtain m where "FindStringSubmatch cgroupRegExp cgroup = Some m"
      by (cases "FindStringSubmatch cgroupRegExp cgroup") simp_all
    from FindStringSubmatch_Some_decomp [OF this] obtain pre w post caps where
      "cgroup = pre @ w @ post" "denotes cgroupRegExp w caps" by blast
    then obtain u where "cgroup = pre @ (''/pod'' @ u @ ''/'') @ post" "u \<noteq> []"
      "list_all word_or_dash u"
      by (auto simp only: denotes_cgroupRegExp)
    then have "pod_segment_at cgroup pre u post" by (simp add: pod_segment_at_def)
    with assms show False by blast
  qed
  then show ?thesis by (simp add: extractUID_def)
qed

lemma extractUID_leftmost_segment:
  assumes seg: "pod_segment_at cgroup pre u post"
    and leftmost: "\<forall>pre' u' post'. pod_segment_at cgroup pre' u' post'
        \<longrightarrow> length pre \<le> length pre'"
  shows "extractUID cgroup = Inr u"
proof -
  from seg have s: "cgroup = pre @ (''/pod'' @ u @ ''/'') @ post" and u: "u \<noteq> []"
    "list_all word_or_dash u" by (simp_all add: pod_segment_at_def)
  have d: "denotes cgroupRegExp (''/pod'' @ u @ ''/'') [u]"
    using u by (simp only: denotes_cgroupRegExp) blast
  have lm: "\<forall>pre' w' post' caps'. cgroup = pre' @ w' @ post' \<and> denotes cgroupRegExp w' caps'
        \<longrightarrow> length pre \<le> length pre'"
  proof (intro allI impI, elim conjE)
    fix pre' w' post' caps'
    assume "cgroup = pre' @ w' @ post'" "denotes cgroupRegExp w' caps'"
    then obtain u' where "cgroup = pre' @ (''/pod'' @ u' @ ''/'') @ post'" "u' \<noteq> []"
      "list_all word_or_dash u'"
      by (auto simp only: denotes_cgroupRegExp)
    then have "pod_segment_at cgroup pre' u' post'" by (simp add: pod_segment_at_def)
    with leftmost show "length pre \<le> length pre'" by blast
  qed
  from FindStringSubmatch_leftmost [OF s d lm] obtain w' post' caps' where
    f: "FindStringSubmatch cgroupRegExp cgroup = Some (w' # caps')"
    and eq: "w' @ post' = (''/pod'' @ u @ ''/'') @ post"
    and d': "denotes cgroupRegExp w' caps'" by blast
  from d' obtain u' where w': "w' = ''/pod'' @ u' @ ''/''" and u': "u' \<noteq> []"
    "list_all word_or_dash u'" and caps': "caps' = [u']"
    by (auto simp only: denotes_cgroupRegExp)
  from eq w' have "u' @ (''/'' @ post') = u @ (''/'' @ post)" by simp
  from run_unique [OF this u'(2) u(2)] have "u' = u"
    by (simp add: not_word_or_dash_slash)
  with f caps' show ?thesis by (simp add: extractUID_def)
qed

lemma kill_process_at_denotes:
  "kill_process_at message pre ws1 ws2 d post \<longleftrightarrow>
     message = pre @ (''Kill'' @ ws1 @ ''process'' @ ws2 @ d) @ post
     \<and> ws1 \<noteq> [] \<and> list_all perl_space ws1 \<and> ws2 \<noteq> [] \<and> list_all perl_space ws2
     \<and> d \<noteq> [] \<and> list_all perl_digit d"
  by (simp add: kill_process_at_def)

lemma extractPID_no_match:
  assumes "\<not> (\<exists>pre ws1 ws2 d post. kill_process_at message pre ws1 ws2 d post)"
  shows "extractPID message = Inl (NoMatch message)"
proof -
  have "FindStringSubmatch pidRegExp message = None"
  proof (rule ccontr)
    assume "FindStringSubmatch pidRegExp message \<noteq> None"
    then obtain m where "FindStringSubmatch pidRegExp message = Some m"
      by (cases "FindStringSubmatch pidRegExp message") simp_all
    from FindStringSubmatch_Some_decomp [OF this] obtain pre w post caps where
      "message = pre @ w @ post" "denotes pidRegExp w caps" by blast
    then obtain ws1 ws2 d where
      "message = pre @ (''Kill'' @ ws1 @ ''process'' @ ws2 @ d) @ post"
      "ws1 \<noteq> []" "list_all perl_space ws1" "ws2 \<noteq> []" "list_all perl_space ws2"
      "d \<noteq> []" "list_all perl_digit d"
      by (auto simp only: denotes_pidRegExp)
    then have "kill_process_at message pre ws1 ws2 d post"
      unfolding kill_process_at_denotes by (intro conjI)
    with assms show False by blast
  qed
  then show ?thesis by (simp add: extractPID_def)
qed

lemma FindStringSubmatch_pid_leftmost:
  assumes occ: "kill_process_at message pre ws1 ws2 d post"
    and maximal: "takeWhile perl_digit post = []"
    and leftmost: "\<forall>pre' ws1' ws2' d' post'. kill_process_at message pre' ws1' ws2' d' post'
        \<longrightarrow> length pre \<le> length pre'"
  shows "\<exists>w. FindStringSubmatch pidRegExp message = Some [w, d]"
proof -
  let ?w = "''Kill'' @ ws1 @ ''process'' @ ws2 @ d"
  from occ [unfolded kill_process_at_denotes] have s: "message = pre @ ?w @ post"
    and f: "ws1 \<noteq> []" "list_all perl_space ws1" "ws2 \<noteq> []" "list_all perl_space ws2"
      "d \<noteq> []" "list_all perl_digit d"
    by blast+
  have d: "denotes pidRegExp ?w [d]"
    using f by (simp only: denotes_pidRegExp) blast
  have lm: "\<forall>pre' w' post' caps'. message = pre' @ w' @ post' \<and> denotes pidRegExp w' caps'
        \<longrightarrow> length pre \<le> length pre'"
  proof (intro allI impI, elim conjE)
    fix pre' w' post' caps'
    assume "message = pre' @ w' @ post'" "denotes pidRegExp w' caps'"
    then obtain ws1' ws2' d' where
      "message = pre' @ (''Kill'' @ ws1' @ ''process'' @ ws2' @ d') @ post'"
      "ws1' \<noteq> []" "list_all perl_space ws1'" "ws2' \<noteq> []" "list_all perl_space ws2'"
      "d' \<noteq> []" "list_all perl_digit d'"
      by (auto simp only: denotes_pidRegExp)
    then have "kill_process_at message pre' ws1' ws2' d' post'"
      unfolding kill_process_at_denotes by (intro conjI)
    with leftmost show "length pre \<le> length pre'" by blast
  qed
  from FindStringSubmatch_leftmost [OF s d lm] obtain w' post' caps' where
    fs: "FindStringSubmatch pidRegExp message = Some (w' # caps')"
    and eq: "w' @ post' = ?w @ post"
    and d': "denotes pidRegExp w' caps'"
    and mh: "match_here pidRegExp (w' @ post') = Some (length w', caps')" by blast
  from d' obtain ws1' ws2' d' where w': "w' = ''Kill'' @ ws1' @ ''process'' @ ws2' @ d'"
    and f': "ws1' \<noteq> []" "list_all perl_space ws1'" "ws2' \<noteq> []" "list_all perl_space ws2'"
      "d' \<noteq> []" "list_all perl_digit d'" and caps': "caps' = [d']"
    by (auto simp only: denotes_pidRegExp)
  have "pidRegExp = [Lit ''Kill'', Plus perl_space, Lit ''process'', Plus perl_space]
      @ [CapPlus perl_digit]"
    by (simp add: pidRegExp_def)
  with mh have "takeWhile perl_digit (drop (length w') (w' @ post')) = []"
    by (metis match_here_last_greedy)
  then have max': "takeWhile perl_digit post' = []" by simp
  from eq w' have e1: "ws1' @ (''process'' @ ws2' @ d' @ post')
      = ws1 @ (''process'' @ ws2 @ d @ post)" by simp
  from run_unique [OF e1 f'(2) f(2)]
  have e2: "ws2' @ (d' @ post') = ws2 @ (d @ post)"
    by (simp add: not_perl_space_p)
  have hd_d: "takeWhile perl_space (d @ post) = []"
    using f(5,6) by (cases d) (simp_all add: perl_digit_not_space)
  have hd_d': "takeWhile perl_space (d' @ post') = []"
    using f'(5,6) by (cases d') (simp_all add: perl_digit_not_space)
  from run_unique [OF e2 f'(4) f(4) hd_d' hd_d] have e3: "d' @ post' = d @ post" by simp
  from run_unique [OF e3 f'(6) f(6) max' maximal] have "d' = d" by simp
  with fs caps' show ?thesis by simp
qed

lemma decimal_value_ge: "acc \<le> decimal_value acc cs"
proof (induction cs arbitrary: acc)
  case Nil
  show ?case by simp
next
  case (Cons c cs)
  have "acc \<le> acc * 10 + digit_val c" by simp
  also have "\<dots> \<le> decimal_value (acc * 10 + digit_val c) cs" by (rule Cons.IH)
  finally show ?case by simp
qed

lemma ParseUint_loop_digits:
  "list_all perl_digit cs \<Longrightarrow> n < 2 ^ 64 \<Longrightarrow>
   ParseUint_loop n cs = (if decimal_value n cs < 2 ^ 64 then Inr (decimal_value n cs)
                          else Inl ErrRange)"
proof (induction cs arbitrary: n)
  case Nil
  then show ?case by simp
next
  case (Cons c cs)
  from Cons.prems have c: "perl_digit c" and cs: "list_all perl_digit cs" by simp_all
  let ?n1 = "n * 10 + digit_val c"
  show ?case
  proof (cases "?n1 < 2 ^ 64")
    case True
    then have "n < cutoff" by (simp add: cutoff_def)
    with True c Cons.IH [OF cs True] show ?thesis by simp
  next
    case False
    have "?n1 \<le> decimal_value ?n1 cs" by (rule decimal_value_ge)
    with False have "\<not> decimal_value n (c # cs) < 2 ^ 64" by simp
    with False c show ?thesis by simp
  qed
qed

lemma ParseUint_digits:
  assumes "d \<noteq> []" "list_all perl_digit d"
  shows "ParseUint d = (if decimal_value 0 d < 2 ^ 64
                         then Inr (word_of_nat (decimal_value 0 d))
                         else Inl (NumError d ErrRange))"
  using assms ParseUint_loop_digits [of d 0] by (simp add: ParseUint_def)

lemma extractPID_leftmost:
  assumes occ: "kill_process_at message pre ws1 ws2 d post"
    and maximal: "takeWhile perl_digit post = []"
    and leftmost: "\<forall>pre' ws1' ws2' d' post'. kill_process_at message pre' ws1' ws2' d' post'
        \<longrightarrow> length pre \<le> length pre'"
  shows "extractPID message = (if decimal_value 0 d < 2 ^ 64
                         then Inr (word_of_nat (decimal_value 0 d))
                         else Inl (NumError d ErrRange))"
proof -
  from FindStringSubmatch_pid_leftmost [OF occ maximal leftmost] obtain w where
    "FindStringSubmatch pidRegExp message = Some [w, d]" by blast
  moreover from occ have "d \<noteq> []" "list_all perl_digit d"
    by (simp_all add: kill_process_at_def)
  ultimately show ?thesis
    by (simp add: extractPID_def ParseUint_digits split: sum.splits)
qed

section \<open>The two extractors\<close>

lemma kill_process_at_K: "kill_process_at message pre ws1 ws2 d post \<Longrightarrow> CHR ''K'' \<in> set message"
  by (simp add: kill_process_at_def)

lemma ParseUint_4821: "ParseUint ''4821'' = Inr 4821"
proof -
  have "list_all perl_digit ''4821''" by (simp add: perl_digit_def)
  from ParseUint_digits [OF _ this] show ?thesis by (simp add: digit_val_def)
qed

text \<open>
  C6, as amended. The pattern of \<open>extractPID\<close> is \<^verbatim>\<open>Kill\s+process\s+(\d+)\<close>: the two
  words, each followed by one or more white-space characters, then the digits. If
  the message has no such occurrence, the result is the error "Event message does
  not match". Otherwise take the leftmost occurrence and all of its digits: the
  result is their value as an unsigned 64-bit integer, or the range error of
  \<^verbatim>\<open>strconv.ParseUint\<close> if the value does not fit.
\<close>

theorem extractPID_pattern:
  "(\<not> (\<exists>pre ws1 ws2 d post. kill_process_at message pre ws1 ws2 d post)
      \<longrightarrow> extractPID message = Inl (NoMatch message))
   \<and> (kill_process_at message pre ws1 ws2 d post
        \<and> takeWhile perl_digit post = []
        \<and> (\<forall>pre' ws1' ws2' d' post'. kill_process_at message pre' ws1' ws2' d' post'
              \<longrightarrow> length pre \<le> length pre')
      \<longrightarrow> extractPID message =
            (if decimal_value 0 d < 2 ^ 64 then Inr (word_of_nat (decimal_value 0 d))
             else Inl (NumError d ErrRange)))"
  using extractPID_no_match [of message] extractPID_leftmost [of message pre ws1 ws2 d post]
  by blast

theorem extractPID_pattern_witness:
  "extractPID ''out of memory'' = Inl (NoMatch ''out of memory'')
   \<and> extractPID ''Kill process 4821'' = Inr 4821"
proof -
  have a: "\<not> (\<exists>pre ws1 ws2 d post. kill_process_at ''out of memory'' pre ws1 ws2 d post)"
    by (auto dest: kill_process_at_K)
  have b: "kill_process_at ''Kill process 4821'' [] '' '' '' '' ''4821'' []"
    by (simp add: kill_process_at_def perl_space_def perl_digit_def)
  have c: "takeWhile perl_digit [] = []" by simp
  have d: "\<forall>pre' ws1' ws2' d' post'. kill_process_at ''Kill process 4821'' pre' ws1' ws2' d' post'
              \<longrightarrow> length ([] :: string) \<le> length pre'" by simp
  have e: "decimal_value 0 ''4821'' = 4821" by (simp add: digit_val_def)
  from extractPID_pattern [of "''out of memory''"] a
  have 1: "extractPID ''out of memory'' = Inl (NoMatch ''out of memory'')" by blast
  from extractPID_pattern [of "''Kill process 4821''" "[]" "'' ''" "'' ''" "''4821''" "[]"] b c d
  have "extractPID ''Kill process 4821'' =
            (if decimal_value 0 ''4821'' < 2 ^ 64 then Inr (word_of_nat (decimal_value 0 ''4821''))
             else Inl (NumError ''4821'' ErrRange))" by blast
  then have 2: "extractPID ''Kill process 4821'' = Inr 4821" by (simp only: e) simp
  from 1 2 show ?thesis by blast
qed

lemma FindStringSubmatch_two_spaces:
  "FindStringSubmatch pidRegExp ''Kill  process 4821'' = Some [''Kill  process 4821'', ''4821'']"
  by code_simp

theorem extractPID_spec_pattern_counterexample:
  "FindStringSubmatch spec_pidRegExp ''Kill  process 4821'' = None
   \<and> extractPID ''Kill  process 4821'' = Inr 4821"
proof
  show "FindStringSubmatch spec_pidRegExp ''Kill  process 4821'' = None" by code_simp
  show "extractPID ''Kill  process 4821'' = Inr 4821"
    by (simp only: extractPID_def FindStringSubmatch_two_spaces) (simp add: ParseUint_4821)
qed

text \<open>
  C7. The pattern of \<open>extractUID\<close> is \<^verbatim>\<open>/pod([\w\-]+)/\<close>: a path segment \<^verbatim>\<open>pod<uid>\<close>
  between two slashes, the uid being one or more letters, digits, underscores or
  dashes. If the path has no such segment, the result is the error "Unknown cgroup
  format"; otherwise it is the uid of the leftmost one.
\<close>

theorem extractUID_pod_segment:
  "(\<not> (\<exists>pre u post. pod_segment_at cgroup pre u post)
      \<longrightarrow> extractUID cgroup = Inl (UnknownCgroup cgroup))
   \<and> (pod_segment_at cgroup pre u post
        \<and> (\<forall>pre' u' post'. pod_segment_at cgroup pre' u' post' \<longrightarrow> length pre \<le> length pre')
      \<longrightarrow> extractUID cgroup = Inr u)"
  using extractUID_no_segment [of cgroup] extractUID_leftmost_segment [of cgroup pre u post]
  by blast

theorem extractUID_pod_segment_witness:
  "extractUID ''burstable'' = Inl (UnknownCgroup ''burstable'')
   \<and> extractUID ''/podabc-123-def/container0'' = Inr ''abc-123-def''"
proof -
  have "CHR ''/'' \<in> set cgroup" if "pod_segment_at cgroup pre u post" for cgroup pre u post
    using that by (simp add: pod_segment_at_def)
  then have a: "\<not> (\<exists>pre u post. pod_segment_at ''burstable'' pre u post)"
    by fastforce
  have b: "pod_segment_at ''/podabc-123-def/container0'' [] ''abc-123-def'' ''container0''"
    by (simp add: pod_segment_at_def word_or_dash_def perl_word_def perl_digit_def)
  have c: "\<forall>pre' u' post'. pod_segment_at ''/podabc-123-def/container0'' pre' u' post'
      \<longrightarrow> length ([] :: string) \<le> length pre'" by simp
  from extractUID_pod_segment [of "''burstable''"] a
  have 1: "extractUID ''burstable'' = Inl (UnknownCgroup ''burstable'')" by blast
  from extractUID_pod_segment [of "''/podabc-123-def/container0''" "[]" "''abc-123-def''"
      "''container0''"] b c
  have 2: "extractUID ''/podabc-123-def/container0'' = Inr ''abc-123-def''" by blast
  from 1 2 show ?thesis by blast
qed

lemma extractUID_example:
  "extractUID ''.../burstable/podabc-123-def/container0'' = Inr ''abc-123-def''"
  by code_simp

section \<open>The notifier and the consumer loop\<close>

lemma Client_do_requests:
  "Client_do answers payload left req sent = (r, sent') \<Longrightarrow>
   \<exists>more. sent' = sent @ req # more \<and> length more \<le> left
     \<and> (\<forall>i<length more. followed (answers (length sent + i)))
     \<and> (\<forall>q\<in>set more. req_payload q = None \<or> req_payload q = Some payload)
     \<and> (case r of
           Inr cs \<Rightarrow> \<not> followed (answers (length sent + length more))
                     \<and> status_of (answers (length sent + length more)) = Some cs
         | Inl err \<Rightarrow> answers (length sent + length more) = TransportFails err
                     \<or> (followed (answers (length sent + length more)) \<and> length more = left))"
proof (induction left arbitrary: req sent r sent')
  case 0
  show ?case
  proof (cases "answers (length sent)")
    case (TransportFails err)
    with "0.prems" have "r = Inl err" "sent' = sent @ [req]"
      by (simp_all add: Client_do.simps [of answers payload 0 req sent])
    with TransportFails show ?thesis by (intro exI [of _ "[]"]) simp
  next
    case (Response code status)
    with "0.prems" have "r = Inr (code, status)" "sent' = sent @ [req]"
      by (simp_all add: Client_do.simps [of answers payload 0 req sent])
    with Response show ?thesis
      by (intro exI [of _ "[]"]) (simp add: followed_def status_of_def)
  next
    case (Redirect code status loc)
    show ?thesis
    proof (cases "code \<in> {301, 302, 303, 307, 308}")
      case True
      with Redirect "0.prems" have "r = Inl (stopped_after_10 loc)" "sent' = sent @ [req]"
        by (simp_all add: Client_do.simps [of answers payload 0 req sent])
      with Redirect True show ?thesis
        by (intro exI [of _ "[]"]) (simp add: followed_def)
    next
      case False
      with Redirect "0.prems" have "r = Inr (code, status)" "sent' = sent @ [req]"
        by (simp_all add: Client_do.simps [of answers payload 0 req sent])
      with Redirect False show ?thesis
        by (intro exI [of _ "[]"]) (simp add: followed_def status_of_def)
    qed
  qed
next
  case (Suc left)
  show ?case
  proof (cases "answers (length sent)")
    case (TransportFails err)
    with Suc.prems have "r = Inl err" "sent' = sent @ [req]"
      by (simp_all add: Client_do.simps [of answers payload "Suc left" req sent])
    with TransportFails show ?thesis by (intro exI [of _ "[]"]) simp
  next
    case (Response code status)
    with Suc.prems have "r = Inr (code, status)" "sent' = sent @ [req]"
      by (simp_all add: Client_do.simps [of answers payload "Suc left" req sent])
    with Response show ?thesis
      by (intro exI [of _ "[]"]) (simp add: followed_def status_of_def)
  next
    case (Redirect code status loc)
    show ?thesis
    proof (cases "code \<in> {301, 302, 303, 307, 308}")
      case False
      with Redirect Suc.prems have "r = Inr (code, status)" "sent' = sent @ [req]"
        by (simp_all add: Client_do.simps [of answers payload "Suc left" req sent])
      with Redirect False show ?thesis
        by (intro exI [of _ "[]"]) (simp add: followed_def status_of_def)
    next
      case True
      let ?req' = "redirect_request payload req code loc"
      from True Redirect Suc.prems
      have "Client_do answers payload left ?req' (sent @ [req]) = (r, sent')"
        by (simp add: Client_do.simps [of answers payload "Suc left" req sent])
      from Suc.IH [OF this] obtain more where m: "sent' = (sent @ [req]) @ ?req' # more"
        "length more \<le> left"
        "\<forall>i<length more. followed (answers (length (sent @ [req]) + i))"
        "\<forall>q\<in>set more. req_payload q = None \<or> req_payload q = Some payload"
        "case r of
           Inr cs \<Rightarrow> \<not> followed (answers (length (sent @ [req]) + length more))
                     \<and> status_of (answers (length (sent @ [req]) + length more)) = Some cs
         | Inl err \<Rightarrow> answers (length (sent @ [req]) + length more) = TransportFails err
                     \<or> (followed (answers (length (sent @ [req]) + length more))
                         \<and> length more = left)"
        by blast
      have f0: "followed (answers (length sent))" using Redirect True by (simp add: followed_def)
      have all: "\<forall>i<length (?req' # more). followed (answers (length sent + i))"
      proof (intro allI impI)
        fix i assume i: "i < length (?req' # more)"
        show "followed (answers (length sent + i))"
        proof (cases i)
          case 0
          with f0 show ?thesis by simp
        next
          case (Suc j)
          with i have "j < length more" by simp
          with m(3) have "followed (answers (length (sent @ [req]) + j))" by blast
          with Suc show ?thesis by simp
        qed
      qed
      have idx: "length (sent @ [req]) + length more = length sent + length (?req' # more)"
        by simp
      have last: "case r of
           Inr cs \<Rightarrow> \<not> followed (answers (length sent + length (?req' # more)))
                     \<and> status_of (answers (length sent + length (?req' # more))) = Some cs
         | Inl err \<Rightarrow> answers (length sent + length (?req' # more)) = TransportFails err
                     \<or> (followed (answers (length sent + length (?req' # more)))
                         \<and> length (?req' # more) = Suc left)"
        using m(5) unfolding idx by (cases r) simp_all
      have pl: "\<forall>q\<in>set (?req' # more). req_payload q = None \<or> req_payload q = Some payload"
        using m(4) by (simp add: redirect_request_def)
      from m(1) have "sent' = sent @ req # (?req' # more)" by simp
      moreover from m(2) have "length (?req' # more) \<le> Suc left" by simp
      ultimately show ?thesis using all last pl by blast
    qed
  qed
qed

lemma followed_status:
  "followed a \<Longrightarrow> \<exists>code status. status_of a = Some (code, status) \<and> 300 < code \<and> code < 309"
  by (cases a) (auto simp: followed_def status_of_def)

lemma postMessage_marshal_fails:
  "json_Marshal nf data = Inl err \<Longrightarrow> postMessage nf sent data = (Some err, sent)"
  by (simp add: postMessage_def)

lemma postMessage_requests:
  assumes m: "json_Marshal nf data = Inr body"
  shows "\<exists>more. snd (postMessage nf sent data)
            = sent @ \<lparr>req_method = ''POST'', req_url = webhookURL nf,
                       req_payload = Some (''application/json'', body)\<rparr> # more
          \<and> length more \<le> 9
          \<and> (\<forall>i<length more. followed (http_answers nf (length sent + i)))
          \<and> (\<forall>q\<in>set more. req_payload q = None
                \<or> req_payload q = Some (''application/json'', body))
          \<and> (\<forall>err. http_answers nf (length sent + length more) = TransportFails err
                \<longrightarrow> fst (postMessage nf sent data) = Some err)
          \<and> (\<forall>code status. \<not> followed (http_answers nf (length sent + length more))
                \<and> status_of (http_answers nf (length sent + length more)) = Some (code, status)
                \<longrightarrow> fst (postMessage nf sent data)
                      = (if code < 200 \<or> 299 < code then Some (PostFailed status) else None))
          \<and> (followed (http_answers nf (length sent + length more))
                \<longrightarrow> fst (postMessage nf sent data) \<noteq> None \<and> length more = 9)"
proof -
  let ?first = "\<lparr>req_method = ''POST'', req_url = webhookURL nf,
                       req_payload = Some (''application/json'', body)\<rparr>"
  obtain r sent' where c: "Client_do (http_answers nf) (''application/json'', body) 9 ?first sent
      = (r, sent')"
    by (cases "Client_do (http_answers nf) (''application/json'', body) 9 ?first sent")
  from Client_do_requests [OF c] obtain more where mo: "sent' = sent @ ?first # more"
    "length more \<le> 9"
    "\<forall>i<length more. followed (http_answers nf (length sent + i))"
    "\<forall>q\<in>set more. req_payload q = None \<or> req_payload q = Some (''application/json'', body)"
    "case r of
       Inr cs \<Rightarrow> \<not> followed (http_answers nf (length sent + length more))
                 \<and> status_of (http_answers nf (length sent + length more)) = Some cs
     | Inl err \<Rightarrow> http_answers nf (length sent + length more) = TransportFails err
                 \<or> (followed (http_answers nf (length sent + length more)) \<and> length more = 9)"
    by blast
  let ?a = "http_answers nf (length sent + length more)"
  have pm: "postMessage nf sent data =
      (case r of Inl err \<Rightarrow> (Some err, sent')
       | Inr (code, status) \<Rightarrow>
           (if code < 200 \<or> code > 299 then (Some (PostFailed status), sent') else (None, sent')))"
    using m c by (simp add: postMessage_def http_Post_def split: sum.splits prod.splits)
  have snd_pm: "snd (postMessage nf sent data) = sent'"
    unfolding pm by (simp split: sum.splits prod.splits)
  have tf: "fst (postMessage nf sent data) = Some err" if "?a = TransportFails err" for err
  proof (cases r)
    case (Inl e)
    with mo(5) that have "e = err" by (auto simp: followed_def)
    with Inl show ?thesis unfolding pm by simp
  next
    case (Inr cs)
    with mo(5) that show ?thesis by (simp add: status_of_def)
  qed
  have st: "fst (postMessage nf sent data)
      = (if code < 200 \<or> 299 < code then Some (PostFailed status) else None)"
    if "\<not> followed ?a \<and> status_of ?a = Some (code, status)" for code status
  proof (cases r)
    case (Inl e)
    with mo(5) that show ?thesis by (auto simp: status_of_def)
  next
    case (Inr cs)
    with mo(5) that have "cs = (code, status)" by simp
    with Inr show ?thesis unfolding pm by simp
  qed
  have fo: "fst (postMessage nf sent data) \<noteq> None \<and> length more = 9" if "followed ?a"
  proof (cases r)
    case (Inl e)
    with mo(5) that have "length more = 9" by (auto simp: followed_def)
    with Inl show ?thesis unfolding pm by simp
  next
    case (Inr cs)
    with mo(5) that show ?thesis by simp
  qed
  from mo(1-4) snd_pm tf st fo show ?thesis by blast
qed

text \<open>
  C8, as amended. A call of \<open>postMessage\<close> makes no request when the payload cannot
  be serialized, and one call of \<^verbatim>\<open>http.Post\<close> otherwise: first the POST of the JSON
  value to the webhook URL, then one more request for each redirect that the HTTP
  client follows, each without body or with the same JSON value, at most ten
  requests in all. When the first answer is not a redirect that the client follows,
  that POST is the only request, whatever the answer is. The call returns nil
  exactly when the payload was serialized and the last answer is a response with a
  status code from 200 to 299; a failure of the client is returned as it is, any
  other last status code as "Failed to POST".
\<close>

theorem postMessage_one_call:
  "length sent \<le> length (snd (postMessage nf sent data))
   \<and> length (snd (postMessage nf sent data)) \<le> length sent + 10
   \<and> (\<forall>err. json_Marshal nf data = Inl err \<longrightarrow> postMessage nf sent data = (Some err, sent))
   \<and> (\<forall>body. json_Marshal nf data = Inr body \<longrightarrow>
         (\<exists>more. snd (postMessage nf sent data)
              = sent @ \<lparr>req_method = ''POST'', req_url = webhookURL nf,
                         req_payload = Some (''application/json'', body)\<rparr> # more
            \<and> (\<forall>i<length more. followed (http_answers nf (length sent + i)))
            \<and> (\<forall>q\<in>set more. req_payload q = None
                  \<or> req_payload q = Some (''application/json'', body))))
   \<and> (\<forall>body. json_Marshal nf data = Inr body \<and> \<not> followed (http_answers nf (length sent))
         \<longrightarrow> snd (postMessage nf sent data)
              = sent @ [\<lparr>req_method = ''POST'', req_url = webhookURL nf,
                          req_payload = Some (''application/json'', body)\<rparr>])
   \<and> (fst (postMessage nf sent data) = None \<longleftrightarrow>
         (\<exists>body code status. json_Marshal nf data = Inr body
            \<and> status_of (http_answers nf (length (snd (postMessage nf sent data)) - 1))
                = Some (code, status)
            \<and> 200 \<le> code \<and> code \<le> 299))
   \<and> (\<forall>body err. json_Marshal nf data = Inr body
          \<and> http_answers nf (length (snd (postMessage nf sent data)) - 1) = TransportFails err
          \<longrightarrow> fst (postMessage nf sent data) = Some err)
   \<and> (\<forall>body code status. json_Marshal nf data = Inr body
          \<and> \<not> followed (http_answers nf (length (snd (postMessage nf sent data)) - 1))
          \<and> status_of (http_answers nf (length (snd (postMessage nf sent data)) - 1))
              = Some (code, status)
          \<and> (code < 200 \<or> 299 < code)
          \<longrightarrow> fst (postMessage nf sent data) = Some (PostFailed status))"
proof (cases "json_Marshal nf data")
  case (Inl err)
  then have "postMessage nf sent data = (Some err, sent)" by (rule postMessage_marshal_fails)
  with Inl show ?thesis by simp
next
  case (Inr body)
  let ?first = "\<lparr>req_method = ''POST'', req_url = webhookURL nf,
                       req_payload = Some (''application/json'', body)\<rparr>"
  from postMessage_requests [OF Inr, of sent] obtain more where
    s: "snd (postMessage nf sent data) = sent @ ?first # more"
    and l: "length more \<le> 9"
    and f: "\<forall>i<length more. followed (http_answers nf (length sent + i))"
    and p: "\<forall>q\<in>set more. req_payload q = None \<or> req_payload q = Some (''application/json'', body)"
    and tf: "\<forall>err. http_answers nf (length sent + length more) = TransportFails err
                \<longrightarrow> fst (postMessage nf sent data) = Some err"
    and st: "\<forall>code status. \<not> followed (http_answers nf (length sent + length more))
                \<and> status_of (http_answers nf (length sent + length more)) = Some (code, status)
                \<longrightarrow> fst (postMessage nf sent data)
                      = (if code < 200 \<or> 299 < code then Some (PostFailed status) else None)"
    and fo: "followed (http_answers nf (length sent + length more))
                \<longrightarrow> fst (postMessage nf sent data) \<noteq> None \<and> length more = 9"
    by blast
  let ?a = "http_answers nf (length sent + length more)"
  have idx: "length (snd (postMessage nf sent data)) - 1 = length sent + length more"
    unfolding s by simp
  have c1: "length sent \<le> length (snd (postMessage nf sent data))" unfolding s by simp
  have c2: "length (snd (postMessage nf sent data)) \<le> length sent + 10"
    unfolding s using l by simp
  have c4: "\<exists>more. snd (postMessage nf sent data) = sent @ ?first # more
            \<and> (\<forall>i<length more. followed (http_answers nf (length sent + i)))
            \<and> (\<forall>q\<in>set more. req_payload q = None
                  \<or> req_payload q = Some (''application/json'', body))"
    using s f p by blast
  have c5: "snd (postMessage nf sent data) = sent @ [?first]"
    if "\<not> followed (http_answers nf (length sent))"
  proof (cases more)
    case Nil
    with s show ?thesis by simp
  next
    case (Cons q qs)
    with f have "followed (http_answers nf (length sent + 0))" by (intro f [rule_format]) simp
    with that show ?thesis by simp
  qed
  have c6: "fst (postMessage nf sent data) = None \<longleftrightarrow>
         (\<exists>code status. status_of ?a = Some (code, status) \<and> 200 \<le> code \<and> code \<le> 299)"
  proof
    assume n: "fst (postMessage nf sent data) = None"
    with fo have nf: "\<not> followed ?a" by blast
    from n tf have "\<forall>err. ?a \<noteq> TransportFails err" by auto
    then obtain code status where cs: "status_of ?a = Some (code, status)"
      by (cases ?a) (auto simp: status_of_def)
    with st nf have "fst (postMessage nf sent data)
        = (if code < 200 \<or> 299 < code then Some (PostFailed status) else None)" by blast
    with n have "200 \<le> code \<and> code \<le> 299" by (simp split: if_splits)
    with cs show "\<exists>code status. status_of ?a = Some (code, status) \<and> 200 \<le> code \<and> code \<le> 299"
      by blast
  next
    assume "\<exists>code status. status_of ?a = Some (code, status) \<and> 200 \<le> code \<and> code \<le> 299"
    then obtain code status where cs: "status_of ?a = Some (code, status)" "200 \<le> code"
      "code \<le> 299" by blast
    have "\<not> followed ?a"
    proof
      assume "followed ?a"
      from followed_status [OF this] cs show False by auto
    qed
    with st cs show "fst (postMessage nf sent data) = None" by auto
  qed
  have c7: "fst (postMessage nf sent data) = Some err" if "?a = TransportFails err" for err
    using tf that by blast
  have c8: "fst (postMessage nf sent data) = Some (PostFailed status)"
    if "\<not> followed ?a" "status_of ?a = Some (code, status)" "code < 200 \<or> 299 < code"
    for code status
    using st that by auto
  show ?thesis
    unfolding idx using Inr c1 c2 c4 c5 c6 c7 c8 by (simp only: sum.inject sum.distinct simp_thms) blast
qed

theorem postMessage_one_call_witness:
  "postMessage \<lparr>json_Marshal = (\<lambda>d::unit. Inr ''{}''), webhookURL = ''http://hook'',
       http_answers = (\<lambda>k. Response 503 ''503 Service Unavailable'')\<rparr> [] ()
     = (Some (PostFailed ''503 Service Unavailable''),
        [\<lparr>req_method = ''POST'', req_url = ''http://hook'',
          req_payload = Some (''application/json'', ''{}'')\<rparr>])
   \<and> postMessage \<lparr>json_Marshal = (\<lambda>d::unit. Inl (OtherError ''json: unsupported type'')),
       webhookURL = ''http://hook'', http_answers = (\<lambda>k. Response 200 ''200 OK'')\<rparr> [] ()
     = (Some (OtherError ''json: unsupported type''), [])
   \<and> postMessage \<lparr>json_Marshal = (\<lambda>d::unit. Inr ''{}''), webhookURL = ''http://hook'',
       http_answers = (\<lambda>k. Response 204 ''204 No Content'')\<rparr> [] ()
     = (None,
        [\<lparr>req_method = ''POST'', req_url = ''http://hook'',
          req_payload = Some (''application/json'', ''{}'')\<rparr>])
   \<and> fst (postMessage \<lparr>json_Marshal = (\<lambda>d::unit. Inr ''{}''), webhookURL = ''http://hook'',
       http_answers = (\<lambda>k. TransportFails (OtherError ''connection refused''))\<rparr> [] ())
     = Some (OtherError ''connection refused'')"
proof -
  let ?ok = "\<lambda>d::unit. Inr ''{}'' :: error + string"
  let ?first = "\<lparr>req_method = ''POST'', req_url = ''http://hook'',
          req_payload = Some (''application/json'', ''{}'')\<rparr>"
  let ?n503 = "\<lparr>json_Marshal = ?ok, webhookURL = ''http://hook'',
       http_answers = (\<lambda>k. Response 503 ''503 Service Unavailable'')\<rparr>"
  let ?nbad = "\<lparr>json_Marshal = (\<lambda>d::unit. Inl (OtherError ''json: unsupported type'')),
       webhookURL = ''http://hook'', http_answers = (\<lambda>k. Response 200 ''200 OK'')\<rparr>"
  let ?n204 = "\<lparr>json_Marshal = ?ok, webhookURL = ''http://hook'',
       http_answers = (\<lambda>k. Response 204 ''204 No Content'')\<rparr>"
  let ?ndown = "\<lparr>json_Marshal = ?ok, webhookURL = ''http://hook'',
       http_answers = (\<lambda>k. TransportFails (OtherError ''connection refused''))\<rparr>"
  note t503 = postMessage_one_call [where nf = ?n503 and sent = "[]" and data = "()"]
  from t503 have s503: "snd (postMessage ?n503 [] ()) = [?first]"
    by (simp add: followed_def)
  with t503 have "fst (postMessage ?n503 [] ()) = Some (PostFailed ''503 Service Unavailable'')"
    by (simp add: followed_def status_of_def)
  with s503 have 1: "postMessage ?n503 [] ()
     = (Some (PostFailed ''503 Service Unavailable''), [?first])"
    by (simp add: prod_eq_iff)
  from postMessage_one_call [where nf = ?nbad and sent = "[]" and data = "()"]
  have 2: "postMessage ?nbad [] () = (Some (OtherError ''json: unsupported type''), [])"
    by simp
  note t204 = postMessage_one_call [where nf = ?n204 and sent = "[]" and data = "()"]
  from t204 have s204: "snd (postMessage ?n204 [] ()) = [?first]"
    by (simp add: followed_def)
  with t204 have "fst (postMessage ?n204 [] ()) = None"
    by (simp add: status_of_def)
  with s204 have 3: "postMessage ?n204 [] () = (None, [?first])"
    by (simp add: prod_eq_iff)
  note tdown = postMessage_one_call [where nf = ?ndown and sent = "[]" and data = "()"]
  from tdown have sdown: "snd (postMessage ?ndown [] ()) = [?first]"
    by (simp add: followed_def)
  with tdown have 4: "fst (postMessage ?ndown [] ()) = Some (OtherError ''connection refused'')"
    by simp
  from 1 2 3 4 show ?thesis by blast
qed

theorem postMessage_redirect_counterexample:
  "postMessage
     \<lparr>json_Marshal = (\<lambda>d::unit. Inr ''{}''), webhookURL = ''http://hook'',
      http_answers = (\<lambda>k. if k = 0 then Redirect 307 ''307 Temporary Redirect'' ''http://hook/v2''
                            else Response 200 ''200 OK'')\<rparr> [] ()
   = (None,
      [\<lparr>req_method = ''POST'', req_url = ''http://hook'',
        req_payload = Some (''application/json'', ''{}'')\<rparr>,
       \<lparr>req_method = ''POST'', req_url = ''http://hook/v2'',
        req_payload = Some (''application/json'', ''{}'')\<rparr>])"
  by (simp add: postMessage_def http_Post_def Client_do.simps redirect_request_def)

lemma length_snd_postMessage_ge: "length sent \<le> length (snd (postMessage nf sent data))"
proof (cases "json_Marshal nf data")
  case (Inl err)
  then show ?thesis by (simp add: postMessage_marshal_fails)
next
  case (Inr body)
  from postMessage_requests [OF this, of sent] show ?thesis by auto
qed

lemma length_snd_handleOOM: "length reqs \<le> length (snd (handleOOM nf db uidIndex reqs event))"
  by (simp add: handleOOM_def length_snd_postMessage_ge
      split: query_result.splits sum.splits option.splits)

lemma postMessage_marshalled:
  "json_Marshal nf data = Inr body \<Longrightarrow> length reqs + 1 \<le> length (snd (postMessage nf reqs data))"
proof -
  assume "json_Marshal nf data = Inr body"
  from postMessage_requests [OF this, of reqs] show ?thesis by auto
qed

lemma handleOOM_nil_posts:
  assumes "\<forall>d. \<exists>body. json_Marshal nf d = Inr body"
    and "handleOOM nf db uidIndex reqs event = (None, reqs')"
  shows "length reqs + 1 \<le> length reqs'"
proof -
  from assms(2) obtain data where p: "postMessage nf reqs data = (None, reqs')"
    by (auto simp: handleOOM_def split: query_result.splits sum.splits option.splits)
  from assms(1) obtain body where "json_Marshal nf data = Inr body" by blast
  from postMessage_marshalled [OF this, of reqs] p show ?thesis by simp
qed

lemma main_iteration_posts:
  assumes m: "\<forall>d. \<exists>body. json_Marshal nf d = Inr body"
  shows "length (posted st) + 1 \<le> length (posted (main_iteration nf st a))"
proof -
  have he: "length reqs + 1 \<le> length (snd (handleError nf reqs err))" for reqs err
  proof -
    from m obtain body where "json_Marshal nf
        [''username'' \<mapsto> ''OOM watcher'', ''text'' \<mapsto> ''Error: '' @ Error_text err] = Inr body"
      by blast
    from postMessage_marshalled [OF this] show ?thesis by (simp add: handleError_def)
  qed
  have lp: "posted (log_Println st r) = snd r" for r
    by (simp add: log_Println_def split: option.splits)
  show ?thesis
  proof (cases "Error (arr_event a)")
    case (Some err)
    with he [of "posted st" err] show ?thesis by (simp add: main_iteration_def lp)
  next
    case None
    obtain r reqs' where h: "handleOOM nf (arr_db a) (arr_uidIndex a) (posted st) (arr_event a)
        = (r, reqs')" by (cases "handleOOM nf (arr_db a) (arr_uidIndex a) (posted st) (arr_event a)")
    show ?thesis
    proof (cases r)
      case None
      with h handleOOM_nil_posts [OF m] have "length (posted st) + 1 \<le> length reqs'" by blast
      with \<open>Error (arr_event a) = None\<close> h None show ?thesis
        by (simp add: main_iteration_def lp)
    next
      case (Some err)
      from length_snd_handleOOM [of "posted st" nf "arr_db a" "arr_uidIndex a" "arr_event a"] h
      have "length (posted st) \<le> length reqs'" by simp
      with he [of reqs' err] \<open>Error (arr_event a) = None\<close> h Some show ?thesis
        by (simp add: main_iteration_def lp)
    qed
  qed
qed

lemma main_loop_posts:
  assumes "\<forall>d. \<exists>body. json_Marshal nf d = Inr body"
  shows "length (posted st) + length as \<le> length (posted (main_loop nf st as))"
proof (induction as arbitrary: st)
  case Nil
  show ?case by simp
next
  case (Cons a as)
  from main_iteration_posts [OF assms, of st a] Cons.IH [of "main_iteration nf st a"]
  show ?case by simp
qed

text \<open>
  C5. \<open>handleOOM\<close> returns an error, without any request, when the query finds no
  row ("No ps record for node ... and PID ..."), when the cgroup of the row has no
  pod segment ("Unknown cgroup format"), and when the UID is not in the index ("Pod
  with UID ... is not known"); on success it posts its alert with \<open>postMessage\<close>.
  Whatever error \<open>handleOOM\<close> returns, the loop posts it with the same
  \<open>postMessage\<close>, as the text "Error: " followed by the error, logs what that call
  returns and goes on with the next event; so that, when the payloads serialize,
  every event of the channel leads to at least one request.
\<close>

theorem unresolved_oom_is_alerted:
  "(QueryRow db (Node event) (PID event) = ErrNoRows
      \<longrightarrow> handleOOM nf db uidIndex reqs event
            = (Some (NoPsRecord (Node event) (PID event)), reqs))
   \<and> (\<forall>cg nspid err. QueryRow db (Node event) (PID event) = Row cg nspid
          \<and> extractUID cg = Inl err
        \<longrightarrow> err = UnknownCgroup cg \<and> handleOOM nf db uidIndex reqs event = (Some err, reqs))
   \<and> (\<forall>cg nspid uid index. QueryRow db (Node event) (PID event) = Row cg nspid
          \<and> extractUID cg = Inr uid \<and> uidIndex = Some index \<and> index uid = None
        \<longrightarrow> handleOOM nf db uidIndex reqs event = (Some (PodNotKnown uid), reqs))
   \<and> (\<forall>cg nspid uid index pod. QueryRow db (Node event) (PID event) = Row cg nspid
          \<and> extractUID cg = Inr uid \<and> uidIndex = Some index \<and> index uid = Some pod
        \<longrightarrow> handleOOM nf db uidIndex reqs event
              = postMessage nf reqs
                  [''username'' \<mapsto> ''OOM watcher'', ''text'' \<mapsto> oom_text pod event nspid])
   \<and> (\<forall>err reqs'. Error (arr_event a) = None
          \<and> handleOOM nf (arr_db a) (arr_uidIndex a) (posted st) (arr_event a) = (Some err, reqs')
        \<longrightarrow> main_loop nf st (a # rest)
              = main_loop nf
                  (log_Println st
                     (postMessage nf reqs'
                        [''username'' \<mapsto> ''OOM watcher'',
                         ''text'' \<mapsto> ''Error: '' @ Error_text err]))
                  rest)
   \<and> Error_text (NoPsRecord node p)
       = ''No ps record for node '' @ node @ '' and PID '' @ format_d (unat p)
   \<and> ((\<forall>d. \<exists>body. json_Marshal nf d = Inr body)
        \<longrightarrow> length (posted st) + length (a # rest)
              \<le> length (posted (main_loop nf st (a # rest))))"
proof (intro conjI allI impI)
  show "handleOOM nf db uidIndex reqs event = (Some (NoPsRecord (Node event) (PID event)), reqs)"
    if "QueryRow db (Node event) (PID event) = ErrNoRows"
    using that by (simp add: handleOOM_def)
  show "err = UnknownCgroup cg"
    if "QueryRow db (Node event) (PID event) = Row cg nspid \<and> extractUID cg = Inl err"
    for cg nspid err
    using that by (auto simp: extractUID_def split: option.splits)
  show "handleOOM nf db uidIndex reqs event = (Some err, reqs)"
    if "QueryRow db (Node event) (PID event) = Row cg nspid \<and> extractUID cg = Inl err"
    for cg nspid err
    using that by (simp add: handleOOM_def)
  show "handleOOM nf db uidIndex reqs event = (Some (PodNotKnown uid), reqs)"
    if "QueryRow db (Node event) (PID event) = Row cg nspid
          \<and> extractUID cg = Inr uid \<and> uidIndex = Some index \<and> index uid = None"
    for cg nspid uid index
    using that by (simp add: handleOOM_def)
  show "handleOOM nf db uidIndex reqs event
      = postMessage nf reqs [''username'' \<mapsto> ''OOM watcher'', ''text'' \<mapsto> oom_text pod event nspid]"
    if "QueryRow db (Node event) (PID event) = Row cg nspid
          \<and> extractUID cg = Inr uid \<and> uidIndex = Some index \<and> index uid = Some pod"
    for cg nspid uid index pod
    using that by (simp add: handleOOM_def)
  show "main_loop nf st (a # rest)
      = main_loop nf
          (log_Println st
             (postMessage nf reqs'
                [''username'' \<mapsto> ''OOM watcher'', ''text'' \<mapsto> ''Error: '' @ Error_text err]))
          rest"
    if "Error (arr_event a) = None
          \<and> handleOOM nf (arr_db a) (arr_uidIndex a) (posted st) (arr_event a) = (Some err, reqs')"
    for err reqs'
    using that by (simp add: main_iteration_def handleError_def)
  show "Error_text (NoPsRecord node p)
       = ''No ps record for node '' @ node @ '' and PID '' @ format_d (unat p)"
    by simp
  show "length (posted st) + length (a # rest) \<le> length (posted (main_loop nf st (a # rest)))"
    if "\<forall>d. \<exists>body. json_Marshal nf d = Inr body"
    using that by (rule main_loop_posts)
qed

lemma format_d_500: "format_d 500 = ''500''"
  by code_simp

lemma QueryRow_empty_table: "QueryRow (DbTable [] now) node p = ErrNoRows"
  by (simp add: QueryRow_def select_record_def)

theorem unresolved_oom_is_alerted_witness:
  "main_loop
     \<lparr>json_Marshal = (\<lambda>m. Inr (case m ''text'' of None \<Rightarrow> [] | Some t \<Rightarrow> t)),
      webhookURL = ''http://hook'', http_answers = (\<lambda>k. Response 200 ''200 OK'')\<rparr>
     \<lparr>posted = [], logged = []\<rparr>
     [\<lparr>arr_db = DbTable [] 0, arr_uidIndex = None,
       arr_event = \<lparr>Node = ''node-3'', PID = 500, Error = None\<rparr>\<rparr>,
      \<lparr>arr_db = DbTable [] 0, arr_uidIndex = None,
       arr_event = \<lparr>Node = ''node-3'', PID = 500, Error = None\<rparr>\<rparr>]
   = \<lparr>posted =
        [\<lparr>req_method = ''POST'', req_url = ''http://hook'',
          req_payload = Some (''application/json'',
            ''Error: No ps record for node node-3 and PID 500'')\<rparr>,
         \<lparr>req_method = ''POST'', req_url = ''http://hook'',
          req_payload = Some (''application/json'',
            ''Error: No ps record for node node-3 and PID 500'')\<rparr>],
      logged = []\<rparr>"
proof -
  let ?nf = "\<lparr>json_Marshal = (\<lambda>m::payload. Inr (case m ''text'' of None \<Rightarrow> [] | Some t \<Rightarrow> t)
                 :: error + string),
      webhookURL = ''http://hook'', http_answers = (\<lambda>k. Response 200 ''200 OK'')\<rparr>"
  let ?ev = "\<lparr>Node = ''node-3'', PID = 500, Error = None\<rparr>"
  let ?a = "\<lparr>arr_db = DbTable [] 0, arr_uidIndex = None, arr_event = ?ev\<rparr>"
  let ?req = "\<lparr>req_method = ''POST'', req_url = ''http://hook'',
          req_payload = Some (''application/json'',
            ''Error: No ps record for node node-3 and PID 500'')\<rparr>"
  let ?data = "[''username'' \<mapsto> ''OOM watcher'',
               ''text'' \<mapsto> ''Error: '' @ Error_text (NoPsRecord ''node-3'' 500)]"
  have q: "QueryRow (DbTable [] 0) (Node ?ev) (PID ?ev) = ErrNoRows"
    by (rule QueryRow_empty_table)
  have etext: "Error_text (NoPsRecord ''node-3'' 500) = ''No ps record for node node-3 and PID 500''"
  proof -
    have u: "unat (500 :: uint64) = 500" by simp
    show ?thesis by (simp only: Error_text.simps u format_d_500) simp
  qed
  have post: "postMessage ?nf reqs ?data = (None, reqs @ [?req])" for reqs
    by (simp only: etext) (simp add: postMessage_def http_Post_def Client_do.simps)
  have lg: "log_Println st (None, reqs) = \<lparr>posted = reqs, logged = logged st\<rparr>" for st reqs
    by (simp add: log_Println_def)
  have h: "handleOOM ?nf (arr_db ?a) (arr_uidIndex ?a) reqs (arr_event ?a)
      = (Some (NoPsRecord ''node-3'' 500), reqs)" for reqs
    using unresolved_oom_is_alerted [of "DbTable [] 0" ?ev ?nf None reqs] q by simp
  have step: "main_loop ?nf st (?a # rest)
      = main_loop ?nf (log_Println st (postMessage ?nf (posted st) ?data)) rest" for st rest
    using unresolved_oom_is_alerted [of _ _ ?nf _ _ ?a st rest] h [of "posted st"] by simp
  have "main_loop ?nf \<lparr>posted = [], logged = []\<rparr> [?a, ?a]
      = main_loop ?nf \<lparr>posted = [?req], logged = []\<rparr> [?a]"
    by (simp only: step post lg) simp
  also have "\<dots> = main_loop ?nf \<lparr>posted = [?req, ?req], logged = []\<rparr> []"
    by (simp only: step post lg) simp
  finally show ?thesis by simp
qed

lemma FindStringSubmatch_out_of_memory: "FindStringSubmatch pidRegExp ''out of memory'' = None"
  by code_simp

text \<open>
  C1. The specification has each qualifying event put exactly one signal on the
  channel, a success or a failure. For a qualifying event whose message does not
  match, \<open>extractPID\<close> fails and the loop body sends the failure signal, then
  goes on to the second send: a signal with the node and the process id 0, which
  the consumer handles as a successful extraction. This is the loop body at such
  an event: two signals.
\<close>

theorem unparsable_event_sends_two:
  "eventWatcher_event ''41''
     \<lparr>Type = Added,
      Object = EventObject
        \<lparr>Reason = ''OOMKilling'', InvolvedObject_Kind = ''Node'',
         InvolvedObject_Name = ''node-3'', Message = ''out of memory'',
         event_ResourceVersion = ''42''\<rparr>\<rparr>
   = Inr (''42'',
          [\<lparr>Node = [], PID = 0, Error = Some (NoMatch ''out of memory'')\<rparr>,
           \<lparr>Node = ''node-3'', PID = 0, Error = None\<rparr>])"
  by (simp add: eventWatcher_event_def send_OOMEvents_def extractPID_def
      FindStringSubmatch_out_of_memory err_of_def pid_of_def
      del: FindStringSubmatch.simps)

lemma send_OOMEvents_cases:
  "send_OOMEvents event =
     (case extractPID (Message event) of
        Inr p \<Rightarrow> [\<lparr>Node = InvolvedObject_Name event, PID = p, Error = None\<rparr>]
      | Inl err \<Rightarrow> [\<lparr>Node = [], PID = 0, Error = Some err\<rparr>,
                    \<lparr>Node = InvolvedObject_Name event, PID = 0, Error = None\<rparr>])"
  by (simp add: send_OOMEvents_def err_of_def pid_of_def split: sum.splits)

lemma qualifying_event_sent:
  "qualifying watchEvent event \<Longrightarrow>
   eventWatcher_event rv watchEvent = Inr (event_ResourceVersion event, send_OOMEvents event)"
  by (simp add: qualifying_def eventWatcher_event_def)

lemma other_event_not_sent:
  "Type watchEvent \<noteq> watch_Error \<Longrightarrow> \<not> (\<exists>event. qualifying watchEvent event) \<Longrightarrow>
   \<exists>rv'. eventWatcher_event rv watchEvent = Inr (rv', [])"
  by (cases "Object watchEvent") (auto simp: qualifying_def eventWatcher_event_def)

section \<open>The query and the guard on the index\<close>

lemma latest_None_iff: "latest rs = None \<longleftrightarrow> rs = []"
  by (induction rs) (auto split: option.splits)

lemma latest_Some:
  "latest rs = Some r \<Longrightarrow> r \<in> set rs \<and> (\<forall>r'\<in>set rs. rec_ts r' \<le> rec_ts r)"
proof (induction rs arbitrary: r)
  case Nil
  then show ?case by simp
next
  case (Cons x xs)
  show ?case
  proof (cases "latest xs")
    case None
    then have "xs = []" by (simp add: latest_None_iff)
    with Cons.prems show ?thesis by simp
  next
    case (Some y)
    from Cons.IH [OF Some] have y: "y \<in> set xs" "\<forall>r'\<in>set xs. rec_ts r' \<le> rec_ts y" by auto
    show ?thesis
    proof (cases "rec_ts x < rec_ts y")
      case True
      with Some Cons.prems have "r = y" by simp
      with y True show ?thesis by auto
    next
      case False
      with Some Cons.prems have "r = x" by simp
      with y False show ?thesis by fastforce
    qed
  qed
qed

text \<open>
  C2, as amended. The query selects a row of the given host name and process id
  whose timestamp is strictly before the database's \<^verbatim>\<open>current_timestamp\<close>, and no
  such row has a later timestamp; it finds no row exactly when there is none. So
  of two matching rows with timestamps \<open>t1 < t2 < now\<close> the one at \<open>t1\<close> is not
  selected, and rows at or after \<open>now\<close> are excluded.
\<close>

theorem select_record_most_recent:
  "(select_record records now node p = None \<longleftrightarrow>
      \<not> (\<exists>r\<in>set records. rec_hostname r = node \<and> rec_pid r = p \<and> rec_ts r < now))
   \<and> (\<forall>r. select_record records now node p = Some r \<longrightarrow>
          r \<in> set records \<and> rec_hostname r = node \<and> rec_pid r = p \<and> rec_ts r < now
          \<and> (\<forall>r'\<in>set records. rec_hostname r' = node \<and> rec_pid r' = p \<and> rec_ts r' < now
                \<longrightarrow> rec_ts r' \<le> rec_ts r))
   \<and> QueryRow (DbTable records now) node p =
        (case select_record records now node p of
           None \<Rightarrow> ErrNoRows
         | Some r \<Rightarrow> Row (rec_cgroup r) (rec_nspid r))"
proof (intro conjI allI impI)
  let ?m = "filter (\<lambda>r. rec_hostname r = node \<and> rec_pid r = p \<and> rec_ts r < now) records"
  show "select_record records now node p = None \<longleftrightarrow>
      \<not> (\<exists>r\<in>set records. rec_hostname r = node \<and> rec_pid r = p \<and> rec_ts r < now)"
    by (auto simp: select_record_def latest_None_iff filter_empty_conv)
  fix r assume "select_record records now node p = Some r"
  then have "latest ?m = Some r" by (simp add: select_record_def)
  from latest_Some [OF this] have r: "r \<in> set ?m" "\<forall>r'\<in>set ?m. rec_ts r' \<le> rec_ts r"
    by auto
  from r(1) show "r \<in> set records" "rec_hostname r = node" "rec_pid r = p" "rec_ts r < now"
    by auto
  from r(2) show "\<forall>r'\<in>set records. rec_hostname r' = node \<and> rec_pid r' = p \<and> rec_ts r' < now
                \<longrightarrow> rec_ts r' \<le> rec_ts r" by auto
next
  show "QueryRow (DbTable records now) node p =
        (case select_record records now node p of
           None \<Rightarrow> ErrNoRows
         | Some r \<Rightarrow> Row (rec_cgroup r) (rec_nspid r))"
    by (simp add: QueryRow_def)
qed

theorem select_record_most_recent_witness:
  "select_record
     [\<lparr>rec_hostname = ''node-3'', rec_pid = 500, rec_ts = 10, rec_cgroup = ''/a'', rec_nspid = 1\<rparr>,
      \<lparr>rec_hostname = ''node-3'', rec_pid = 500, rec_ts = 20, rec_cgroup = ''/b'', rec_nspid = 2\<rparr>,
      \<lparr>rec_hostname = ''node-3'', rec_pid = 500, rec_ts = 30, rec_cgroup = ''/c'', rec_nspid = 3\<rparr>]
     25 ''node-3'' 500
   = Some \<lparr>rec_hostname = ''node-3'', rec_pid = 500, rec_ts = 20, rec_cgroup = ''/b'',
           rec_nspid = 2\<rparr>"
proof -
  let ?r1 = "\<lparr>rec_hostname = ''node-3'', rec_pid = 500, rec_ts = 10, rec_cgroup = ''/a'',
              rec_nspid = 1\<rparr>"
  let ?r2 = "\<lparr>rec_hostname = ''node-3'', rec_pid = 500, rec_ts = 20, rec_cgroup = ''/b'',
              rec_nspid = 2\<rparr>"
  let ?r3 = "\<lparr>rec_hostname = ''node-3'', rec_pid = 500, rec_ts = 30, rec_cgroup = ''/c'',
              rec_nspid = 3\<rparr>"
  let ?s = "select_record [?r1, ?r2, ?r3] 25 ''node-3'' 500"
  note t = select_record_most_recent [of "[?r1, ?r2, ?r3]" 25 "''node-3''" 500]
  from t have "?s \<noteq> None" by simp
  then obtain r where r: "?s = Some r" by (cases ?s) simp_all
  with t have "r \<in> set [?r1, ?r2, ?r3]" "rec_ts r < 25" "rec_ts ?r2 \<le> rec_ts r"
    by simp_all
  then have "r = ?r2" by auto
  with r show ?thesis by simp
qed

theorem select_record_at_now_counterexample:
  "select_record
     [\<lparr>rec_hostname = ''node-3'', rec_pid = 500, rec_ts = 20, rec_cgroup = ''/b'', rec_nspid = 2\<rparr>]
     20 ''node-3'' 500 = None
   \<and> spec_select_record
     [\<lparr>rec_hostname = ''node-3'', rec_pid = 500, rec_ts = 20, rec_cgroup = ''/b'', rec_nspid = 2\<rparr>]
     20 ''node-3'' 500
     = Some \<lparr>rec_hostname = ''node-3'', rec_pid = 500, rec_ts = 20, rec_cgroup = ''/b'',
             rec_nspid = 2\<rparr>"
  by (simp add: select_record_def spec_select_record_def)

lemma dom_load_items: "dom (load_items index items) = dom index \<union> pod_UID ` set items"
  by (induction items arbitrary: index) (auto simp: index_put_def)

lemma length_load_trace: "length (load_trace a s items) = length items"
  by (induction items arbitrary: s) simp_all

lemma load_trace_nth:
  "k \<le> length items \<Longrightarrow>
   (s # load_trace a s items) ! k = s\<lparr>heap := (heap s)(a := load_items (heap s a) (take k items))\<rparr>"
proof (induction items arbitrary: s k)
  case Nil
  then show ?case by simp
next
  case (Cons pod items)
  show ?case
  proof (cases k)
    case 0
    then show ?thesis by simp
  next
    case (Suc j)
    with Cons.prems have j: "j \<le> length items" by simp
    have "(s # load_trace a s (pod # items)) ! k
        = (put_item a s pod # load_trace a (put_item a s pod) items) ! j"
      using Suc by simp
    also have "\<dots> = (put_item a s pod)\<lparr>heap := (heap (put_item a s pod))
        (a := load_items (heap (put_item a s pod) a) (take j items))\<rparr>"
      by (rule Cons.IH [OF j])
    also have "\<dots> = s\<lparr>heap := (heap s)(a := load_items (heap s a) (take k (pod # items)))\<rparr>"
      using Suc by (simp add: put_item_def fun_upd_def cong: if_cong)
    finally show ?thesis .
  qed
qed

lemma length_snapshot_trace: "length (snapshot_trace s items) = length items + 2"
  by (simp add: snapshot_trace_def make_index_def length_load_trace)

lemma snapshot_trace_loading:
  assumes "k \<le> length items"
  shows "snapshot_trace s items ! k =
     s\<lparr>heap := (heap s)(next_addr s := load_items Map.empty (take k items)),
       next_addr := Suc (next_addr s)\<rparr>"
proof -
  let ?s1 = "s\<lparr>heap := (heap s)(next_addr s := Map.empty), next_addr := Suc (next_addr s)\<rparr>"
  from assms have "k < length (?s1 # load_trace (next_addr s) ?s1 items)"
    by (simp add: length_load_trace)
  then have "snapshot_trace s items ! k = (?s1 # load_trace (next_addr s) ?s1 items) ! k"
    by (simp only: snapshot_trace_def make_index_def prod.case nth_append if_True)
  with load_trace_nth [OF assms, of ?s1 "next_addr s"] show ?thesis by simp
qed

lemma snapshot_trace_published:
  "snapshot_trace s items ! (length items + 1) =
     s\<lparr>heap := (heap s)(next_addr s := load_items Map.empty items),
       next_addr := Suc (next_addr s), uidIndex_ptr := Some (next_addr s)\<rparr>"
proof -
  let ?s1 = "s\<lparr>heap := (heap s)(next_addr s := Map.empty), next_addr := Suc (next_addr s)\<rparr>"
  let ?tr = "?s1 # load_trace (next_addr s) ?s1 items"
  have len: "length ?tr = length items + 1" by (simp add: length_load_trace)
  have "?tr \<noteq> []" by simp
  from last_conv_nth [OF this] len have "last ?tr = ?tr ! length items"
    by (simp only: add_diff_cancel_right')
  with load_trace_nth [of "length items" items ?s1 "next_addr s"]
  have l: "last ?tr = s\<lparr>heap := (heap s)(next_addr s := load_items Map.empty items),
       next_addr := Suc (next_addr s)\<rparr>" by simp
  have "snapshot_trace s items ! (length items + 1) = publish (next_addr s) (last ?tr)"
    by (simp only: snapshot_trace_def make_index_def prod.case nth_append len) simp
  with l show ?thesis by (simp add: publish_def)
qed

lemma last_snapshot_trace:
  "last (snapshot_trace s items) = snapshot_trace s items ! (length items + 1)"
proof -
  have "snapshot_trace s items \<noteq> []" using length_snapshot_trace [of s items] by auto
  from last_conv_nth [OF this] show ?thesis by (simp add: length_snapshot_trace)
qed


text \<open>
  C10, as amended. While \<^verbatim>\<open>uidIndex\<close> is nil, \<open>handleOOM\<close> returns an error and
  posts no alert; the error is "UID index not ready" when the query found a row
  and the UID was extracted from its cgroup (a failure of one of these two steps
  is returned first, as its own error). \<open>internalPodIndexer\<close> leaves \<^verbatim>\<open>uidIndex\<close>
  as it was when the list call fails. Otherwise it goes through
  \<open>length items + 2\<close> memories: in each but the last, \<^verbatim>\<open>uidIndex\<close> is what it was
  before the call and points to what it pointed to, while the new map holds the
  first \<open>k\<close> items after \<open>k\<close> iterations; in the last one \<^verbatim>\<open>uidIndex\<close> points to
  the new map, loaded from all the items of the list and holding every item's UID.
  So a lookup at any moment before the last one, in a process whose \<^verbatim>\<open>uidIndex\<close>
  was nil, returns an error and posts no alert.
\<close>

theorem nil_index_is_guarded:
  "fst (handleOOM nf db None reqs event) \<noteq> None
   \<and> snd (handleOOM nf db None reqs event) = reqs
   \<and> (\<forall>cg nspid uid. QueryRow db (Node event) (PID event) = Row cg nspid
          \<and> extractUID cg = Inr uid
        \<longrightarrow> handleOOM nf db None reqs event = (Some IndexNotReady, reqs))
   \<and> internalPodIndexer uidIndex (Inl err) ws = Fatal err uidIndex
   \<and> length (snapshot_trace s items) = length items + 2
   \<and> (\<forall>k \<le> length items.
         uidIndex_ptr (snapshot_trace s items ! k) = uidIndex_ptr s
         \<and> heap (snapshot_trace s items ! k) (next_addr s) = load_items Map.empty (take k items)
         \<and> ((\<forall>b. uidIndex_ptr s = Some b \<longrightarrow> b < next_addr s) \<longrightarrow>
              read_uidIndex (snapshot_trace s items ! k) = read_uidIndex s)
         \<and> (uidIndex_ptr s = None \<longrightarrow>
              fst (handleOOM nf db (read_uidIndex (snapshot_trace s items ! k)) reqs event) \<noteq> None
              \<and> snd (handleOOM nf db (read_uidIndex (snapshot_trace s items ! k)) reqs event)
                  = reqs))
   \<and> read_uidIndex (snapshot_trace s items ! (length items + 1))
       = Some (load_items Map.empty items)
   \<and> internalPodIndexer uidIndex (Inr (items, rv)) []
       = Waiting (read_uidIndex (last (snapshot_trace s items)))
   \<and> (\<forall>pod\<in>set items. load_items Map.empty items (pod_UID pod) \<noteq> None)"
proof -
  have h1: "fst (handleOOM nf db None reqs event) \<noteq> None"
    by (simp add: handleOOM_def split: query_result.splits sum.splits)
  have h2: "snd (handleOOM nf db None reqs event) = reqs"
    by (simp add: handleOOM_def split: query_result.splits sum.splits)
  have h3: "\<forall>cg nspid uid. QueryRow db (Node event) (PID event) = Row cg nspid
          \<and> extractUID cg = Inr uid
        \<longrightarrow> handleOOM nf db None reqs event = (Some IndexNotReady, reqs)"
    by (simp add: handleOOM_def)
  have i1: "internalPodIndexer uidIndex (Inl err) ws = Fatal err uidIndex"
    by (simp add: internalPodIndexer_def)
  have t1: "length (snapshot_trace s items) = length items + 2"
    by (rule length_snapshot_trace)
  have t2: "uidIndex_ptr (snapshot_trace s items ! k) = uidIndex_ptr s
         \<and> heap (snapshot_trace s items ! k) (next_addr s) = load_items Map.empty (take k items)
         \<and> ((\<forall>b. uidIndex_ptr s = Some b \<longrightarrow> b < next_addr s) \<longrightarrow>
              read_uidIndex (snapshot_trace s items ! k) = read_uidIndex s)
         \<and> (uidIndex_ptr s = None \<longrightarrow>
              fst (handleOOM nf db (read_uidIndex (snapshot_trace s items ! k)) reqs event) \<noteq> None
              \<and> snd (handleOOM nf db (read_uidIndex (snapshot_trace s items ! k)) reqs event)
                  = reqs)"
    if k: "k \<le> length items" for k
  proof -
    note eq = snapshot_trace_loading [OF k, of s]
    have p: "uidIndex_ptr (snapshot_trace s items ! k) = uidIndex_ptr s"
      by (simp add: eq)
    have m: "heap (snapshot_trace s items ! k) (next_addr s)
        = load_items Map.empty (take k items)"
      by (simp add: eq)
    have r: "read_uidIndex (snapshot_trace s items ! k) = read_uidIndex s"
      if "\<forall>b. uidIndex_ptr s = Some b \<longrightarrow> b < next_addr s"
      using that by (cases "uidIndex_ptr s") (auto simp: eq read_uidIndex_def)
    have n: "read_uidIndex (snapshot_trace s items ! k) = None" if "uidIndex_ptr s = None"
      using that by (simp add: eq read_uidIndex_def)
    from p m r n h1 h2 show ?thesis by simp
  qed
  have t3: "read_uidIndex (snapshot_trace s items ! (length items + 1))
       = Some (load_items Map.empty items)"
    by (simp only: snapshot_trace_published) (simp add: read_uidIndex_def)
  have i2: "internalPodIndexer uidIndex (Inr (items, rv)) []
       = Waiting (read_uidIndex (last (snapshot_trace s items)))"
    by (simp only: last_snapshot_trace t3) (simp add: internalPodIndexer_def)
  have d: "\<forall>pod\<in>set items. load_items Map.empty items (pod_UID pod) \<noteq> None"
  proof
    fix pod assume "pod \<in> set items"
    then have "pod_UID pod \<in> dom (load_items Map.empty items)"
      by (simp add: dom_load_items)
    then show "load_items Map.empty items (pod_UID pod) \<noteq> None" by blast
  qed
  from t2 have t2': "\<forall>k \<le> length items.
         uidIndex_ptr (snapshot_trace s items ! k) = uidIndex_ptr s
         \<and> heap (snapshot_trace s items ! k) (next_addr s) = load_items Map.empty (take k items)
         \<and> ((\<forall>b. uidIndex_ptr s = Some b \<longrightarrow> b < next_addr s) \<longrightarrow>
              read_uidIndex (snapshot_trace s items ! k) = read_uidIndex s)
         \<and> (uidIndex_ptr s = None \<longrightarrow>
              fst (handleOOM nf db (read_uidIndex (snapshot_trace s items ! k)) reqs event) \<noteq> None
              \<and> snd (handleOOM nf db (read_uidIndex (snapshot_trace s items ! k)) reqs event)
                  = reqs)"
    by (intro allI impI)
  from h1 h2 h3 i1 t1 t2' t3 i2 d show ?thesis by (intro conjI)
qed

lemma extractUID_podu1: "extractUID ''/kubepods/burstable/podu1/c0'' = Inr ''u1''"
  by code_simp

theorem nil_index_is_guarded_witness:
  "handleOOM
     \<lparr>json_Marshal = (\<lambda>m. Inr []), webhookURL = ''http://hook'',
      http_answers = (\<lambda>k. Response 200 ''200 OK'')\<rparr>
     (DbTable [\<lparr>rec_hostname = ''node-3'', rec_pid = 500, rec_ts = 20,
                rec_cgroup = ''/kubepods/burstable/podu1/c0'', rec_nspid = 7\<rparr>] 25)
     None [] \<lparr>Node = ''node-3'', PID = 500, Error = None\<rparr>
   = (Some IndexNotReady, [])
   \<and> map read_uidIndex
       (snapshot_trace \<lparr>heap = (\<lambda>a. Map.empty), next_addr = 0, uidIndex_ptr = None\<rparr>
          [\<lparr>pod_UID = ''u1'', pod_Name = ''web-7'', pod_Namespace = ''prod'',
            pod_ResourceVersion = ''5''\<rparr>])
     = [None, None, Some [''u1'' \<mapsto> \<lparr>Name = ''web-7'', Namespace = ''prod''\<rparr>]]
   \<and> handleOOM
     \<lparr>json_Marshal = (\<lambda>m. Inr []), webhookURL = ''http://hook'',
      http_answers = (\<lambda>k. Response 200 ''200 OK'')\<rparr>
     (DbTable [\<lparr>rec_hostname = ''node-3'', rec_pid = 500, rec_ts = 20,
                rec_cgroup = ''/kubepods/burstable/podu1/c0'', rec_nspid = 7\<rparr>] 25)
     (read_uidIndex
        (snapshot_trace \<lparr>heap = (\<lambda>a. Map.empty), next_addr = 0, uidIndex_ptr = None\<rparr>
           [\<lparr>pod_UID = ''u1'', pod_Name = ''web-7'', pod_Namespace = ''prod'',
             pod_ResourceVersion = ''5''\<rparr>] ! 1))
     [] \<lparr>Node = ''node-3'', PID = 500, Error = None\<rparr>
   = (Some IndexNotReady, [])
   \<and> load_items Map.empty
        [\<lparr>pod_UID = ''u1'', pod_Name = ''web-7'', pod_Namespace = ''prod'',
          pod_ResourceVersion = ''5''\<rparr>] ''u1'' \<noteq> None"
proof -
  let ?nf = "\<lparr>json_Marshal = (\<lambda>m::payload. Inr [] :: error + string),
      webhookURL = ''http://hook'', http_answers = (\<lambda>k. Response 200 ''200 OK'')\<rparr>"
  let ?db = "DbTable [\<lparr>rec_hostname = ''node-3'', rec_pid = 500, rec_ts = 20,
                rec_cgroup = ''/kubepods/burstable/podu1/c0'', rec_nspid = 7\<rparr>] 25"
  let ?ev = "\<lparr>Node = ''node-3'', PID = 500, Error = None\<rparr>"
  let ?pod = "\<lparr>pod_UID = ''u1'', pod_Name = ''web-7'', pod_Namespace = ''prod'',
          pod_ResourceVersion = ''5''\<rparr>"
  let ?s = "\<lparr>heap = (\<lambda>a. Map.empty), next_addr = 0, uidIndex_ptr = None\<rparr>
      :: memory"
  note t = nil_index_is_guarded [where nf = ?nf and db = ?db and reqs = "[]" and event = ?ev
      and uidIndex = None and err = "OtherError []" and ws = "[]" and s = ?s
      and items = "[?pod]" and rv = "[]"]
  have q: "QueryRow ?db (Node ?ev) (PID ?ev) = Row ''/kubepods/burstable/podu1/c0'' 7"
    by (simp add: QueryRow_def select_record_def)
  from t q extractUID_podu1
  have 1: "handleOOM ?nf ?db None [] ?ev = (Some IndexNotReady, [])" by blast
  from t have len: "length (snapshot_trace ?s [?pod]) = 3" by simp
  from t have "\<forall>k \<le> length [?pod]. uidIndex_ptr (snapshot_trace ?s [?pod] ! k) = None"
    by simp
  then have n: "\<forall>k \<le> 1. read_uidIndex (snapshot_trace ?s [?pod] ! k) = None"
    by (simp add: read_uidIndex_def)
  then have n0: "read_uidIndex (snapshot_trace ?s [?pod] ! 0) = None"
    and n1: "read_uidIndex (snapshot_trace ?s [?pod] ! 1) = None" by simp_all
  from t have "read_uidIndex (snapshot_trace ?s [?pod] ! (length [?pod] + 1))
      = Some (load_items Map.empty [?pod])" by blast
  moreover have "length [?pod] + 1 = 2" by simp
  moreover have "load_items Map.empty [?pod]
      = [''u1'' \<mapsto> \<lparr>Name = ''web-7'', Namespace = ''prod''\<rparr>]"
    by (simp add: index_put_def)
  ultimately have n2: "read_uidIndex (snapshot_trace ?s [?pod] ! 2)
      = Some [''u1'' \<mapsto> \<lparr>Name = ''web-7'', Namespace = ''prod''\<rparr>]"
    by (simp only:)
  have three: "map f xs = [f (xs ! 0), f (xs ! 1), f (xs ! 2)]" if "length xs = 3"
    for f :: "memory \<Rightarrow> pod_index option" and xs
    using that by (auto simp: length_Suc_conv numeral_3_eq_3)
  from three [OF len, of read_uidIndex]
  have 2: "map read_uidIndex (snapshot_trace ?s [?pod])
      = [None, None, Some [''u1'' \<mapsto> \<lparr>Name = ''web-7'', Namespace = ''prod''\<rparr>]]"
    by (simp only: n0 n1 n2)
  from 1 n1 have 3: "handleOOM ?nf ?db (read_uidIndex (snapshot_trace ?s [?pod] ! 1)) [] ?ev
      = (Some IndexNotReady, [])" by (simp only:)
  from t have 4: "load_items Map.empty [?pod] (pod_UID ?pod) \<noteq> None" by simp
  from 1 2 3 4 show ?thesis by simp
qed

theorem nil_index_no_record_counterexample:
  "handleOOM
     \<lparr>json_Marshal = (\<lambda>m. Inr []), webhookURL = ''http://hook'',
      http_answers = (\<lambda>k. Response 200 ''200 OK'')\<rparr>
     (DbTable [] 0) None [] \<lparr>Node = ''node-3'', PID = 500, Error = None\<rparr>
   = (Some (NoPsRecord ''node-3'' 500), [])
   \<and> NoPsRecord ''node-3'' 500 \<noteq> IndexNotReady"
  by (simp add: handleOOM_def QueryRow_def select_record_def)

section \<open>The workload index and the two watch loops\<close>

lemma load_items_override:
  "load_items m ps uid = (case load_items Map.empty ps uid of Some i \<Rightarrow> Some i | None \<Rightarrow> m uid)"
proof (induction ps arbitrary: m)
  case Nil
  show ?case by simp
next
  case (Cons p ps)
  have "load_items m (p # ps) uid = load_items (index_put m p) ps uid" by simp
  also have "\<dots> = (case load_items Map.empty ps uid of Some i \<Rightarrow> Some i
                      | None \<Rightarrow> index_put m p uid)"
    by (rule Cons.IH)
  finally have l: "load_items m (p # ps) uid = (case load_items Map.empty ps uid of Some i \<Rightarrow> Some i
                      | None \<Rightarrow> index_put m p uid)" .
  have "load_items Map.empty (p # ps) uid = load_items (index_put Map.empty p) ps uid" by simp
  also have "\<dots> = (case load_items Map.empty ps uid of Some i \<Rightarrow> Some i
                      | None \<Rightarrow> index_put Map.empty p uid)"
    by (rule Cons.IH)
  finally have r: "load_items Map.empty (p # ps) uid = (case load_items Map.empty ps uid of
      Some i \<Rightarrow> Some i | None \<Rightarrow> index_put Map.empty p uid)" .
  show ?case unfolding l r by (simp add: index_put_def split: option.splits)
qed

lemma podIndexer_event_cases:
  "podIndexer_event (index, rv) ev =
     (if Type ev = watch_Error then Inl (FromObject (Object ev))
      else case Object ev of
        PodObject pod \<Rightarrow>
          Inr (if Type ev = Added then index_put index pod
               else if Type ev = Deleted then index(pod_UID pod := None)
               else index, pod_ResourceVersion pod)
      | EventObject e \<Rightarrow> Inr (index, rv)
      | StatusObject reason msg \<Rightarrow> Inr (index, rv)
      | OtherObject \<Rightarrow> Inr (index, rv))"
  by (simp add: podIndexer_event_def split: runtime_Object.splits)

lemma index_content:
  assumes "\<forall>e\<in>set evs. Type e \<noteq> watch_Error" "no_add_after_remove evs"
  shows "\<exists>index' rv'. podIndexer_events (index, rv) evs = Inr (index', rv')
           \<and> dom index' = (dom index \<union> added_UIDs evs) - removed_UIDs evs
           \<and> (\<forall>uid\<in>dom index'. index' uid =
                 (case latest_added evs uid of Some info \<Rightarrow> Some info | None \<Rightarrow> index uid))"
  using assms
proof (induction evs arbitrary: index rv)
  case Nil
  show ?case by (simp add: added_UIDs_def removed_UIDs_def latest_added_def)
next
  case (Cons ev evs)
  from Cons.prems have ne: "Type ev \<noteq> watch_Error" and rest: "\<forall>e\<in>set evs. Type e \<noteq> watch_Error"
    and nar: "no_add_after_remove evs" by simp_all
  note IH = Cons.IH [OF rest nar]
  show ?case
  proof (cases "Object ev")
    case (PodObject pod)
    let ?u = "pod_UID pod"
    consider (add) "Type ev = Added" | (del) "Type ev = Deleted"
      | (other) "Type ev \<noteq> Added" "Type ev \<noteq> Deleted" by blast
    then show ?thesis
    proof cases
      case add
      from IH [of "index_put index pod" "pod_ResourceVersion pod"] obtain index' rv' where
        e: "podIndexer_events (index_put index pod, pod_ResourceVersion pod) evs = Inr (index', rv')"
        and d: "dom index' = (dom (index_put index pod) \<union> added_UIDs evs) - removed_UIDs evs"
        and v: "\<forall>uid\<in>dom index'. index' uid =
                 (case latest_added evs uid of Some info \<Rightarrow> Some info
                  | None \<Rightarrow> index_put index pod uid)" by blast
      have 1: "podIndexer_events (index, rv) (ev # evs) = Inr (index', rv')"
        using e ne add PodObject by (simp add: podIndexer_event_cases)
      have a: "added_UIDs (ev # evs) = insert ?u (added_UIDs evs)"
        using add PodObject by (simp add: added_UIDs_def)
      have r: "removed_UIDs (ev # evs) = removed_UIDs evs"
        using add PodObject by (simp add: removed_UIDs_def)
      have 2: "dom index' = (dom index \<union> added_UIDs (ev # evs)) - removed_UIDs (ev # evs)"
        unfolding d a r by (auto simp: index_put_def)
      have la: "latest_added (ev # evs) uid =
          (case latest_added evs uid of Some i \<Rightarrow> Some i | None \<Rightarrow> index_put Map.empty pod uid)"
        for uid
        using add PodObject load_items_override [of "index_put Map.empty pod" "added_pods evs" uid]
        by (simp add: latest_added_def)
      have 3: "\<forall>uid\<in>dom index'. index' uid =
                 (case latest_added (ev # evs) uid of Some info \<Rightarrow> Some info | None \<Rightarrow> index uid)"
      proof
        fix uid assume "uid \<in> dom index'"
        with v have "index' uid = (case latest_added evs uid of Some info \<Rightarrow> Some info
                  | None \<Rightarrow> index_put index pod uid)" by blast
        then show "index' uid =
            (case latest_added (ev # evs) uid of Some info \<Rightarrow> Some info | None \<Rightarrow> index uid)"
          unfolding la by (simp add: index_put_def split: option.splits)
      qed
      from 1 2 3 show ?thesis by blast
    next
      case del
      from Cons.prems(2) del PodObject have nu: "?u \<notin> added_UIDs evs" by simp
      from IH [of "index(?u := None)" "pod_ResourceVersion pod"] obtain index' rv' where
        e: "podIndexer_events (index(?u := None), pod_ResourceVersion pod) evs = Inr (index', rv')"
        and d: "dom index' = (dom (index(?u := None)) \<union> added_UIDs evs) - removed_UIDs evs"
        and v: "\<forall>uid\<in>dom index'. index' uid =
                 (case latest_added evs uid of Some info \<Rightarrow> Some info
                  | None \<Rightarrow> (index(?u := None)) uid)" by blast
      have 1: "podIndexer_events (index, rv) (ev # evs) = Inr (index', rv')"
        using e ne del PodObject by (simp add: podIndexer_event_cases)
      have a: "added_UIDs (ev # evs) = added_UIDs evs"
        using del PodObject by (simp add: added_UIDs_def)
      have r: "removed_UIDs (ev # evs) = insert ?u (removed_UIDs evs)"
        using del PodObject by (simp add: removed_UIDs_def)
      have 2: "dom index' = (dom index \<union> added_UIDs (ev # evs)) - removed_UIDs (ev # evs)"
        unfolding d a r using nu by auto
      have la: "latest_added (ev # evs) = latest_added evs"
        using del PodObject by (simp add: latest_added_def)
      have 3: "\<forall>uid\<in>dom index'. index' uid =
                 (case latest_added (ev # evs) uid of Some info \<Rightarrow> Some info | None \<Rightarrow> index uid)"
      proof
        fix uid assume in_dom: "uid \<in> dom index'"
        with d nu have "uid \<noteq> ?u" by auto
        with v in_dom show "index' uid =
            (case latest_added (ev # evs) uid of Some info \<Rightarrow> Some info | None \<Rightarrow> index uid)"
          unfolding la by (simp split: option.splits)
      qed
      from 1 2 3 show ?thesis by blast
    next
      case other
      from IH [of index "pod_ResourceVersion pod"] obtain index' rv' where
        e: "podIndexer_events (index, pod_ResourceVersion pod) evs = Inr (index', rv')"
        and d: "dom index' = (dom index \<union> added_UIDs evs) - removed_UIDs evs"
        and v: "\<forall>uid\<in>dom index'. index' uid =
                 (case latest_added evs uid of Some info \<Rightarrow> Some info | None \<Rightarrow> index uid)"
        by blast
      have 1: "podIndexer_events (index, rv) (ev # evs) = Inr (index', rv')"
        using e ne other PodObject by (simp add: podIndexer_event_cases)
      have "added_UIDs (ev # evs) = added_UIDs evs" "removed_UIDs (ev # evs) = removed_UIDs evs"
        "latest_added (ev # evs) = latest_added evs"
        using other PodObject by (simp_all add: added_UIDs_def removed_UIDs_def latest_added_def)
      with 1 d v show ?thesis by simp
    qed
  next
    case (EventObject x)
    from IH [of index rv] obtain index' rv' where
      e: "podIndexer_events (index, rv) evs = Inr (index', rv')"
      and d: "dom index' = (dom index \<union> added_UIDs evs) - removed_UIDs evs"
      and v: "\<forall>uid\<in>dom index'. index' uid =
               (case latest_added evs uid of Some info \<Rightarrow> Some info | None \<Rightarrow> index uid)"
      by blast
    have 1: "podIndexer_events (index, rv) (ev # evs) = Inr (index', rv')"
      using e ne EventObject by (simp add: podIndexer_event_cases)
    have "added_UIDs (ev # evs) = added_UIDs evs" "removed_UIDs (ev # evs) = removed_UIDs evs"
      "latest_added (ev # evs) = latest_added evs"
      using EventObject by (simp_all add: added_UIDs_def removed_UIDs_def latest_added_def)
    with 1 d v show ?thesis by simp
  next
    case (StatusObject x y)
    from IH [of index rv] obtain index' rv' where
      e: "podIndexer_events (index, rv) evs = Inr (index', rv')"
      and d: "dom index' = (dom index \<union> added_UIDs evs) - removed_UIDs evs"
      and v: "\<forall>uid\<in>dom index'. index' uid =
               (case latest_added evs uid of Some info \<Rightarrow> Some info | None \<Rightarrow> index uid)"
      by blast
    have 1: "podIndexer_events (index, rv) (ev # evs) = Inr (index', rv')"
      using e ne StatusObject by (simp add: podIndexer_event_cases)
    have "added_UIDs (ev # evs) = added_UIDs evs" "removed_UIDs (ev # evs) = removed_UIDs evs"
      "latest_added (ev # evs) = latest_added evs"
      using StatusObject by (simp_all add: added_UIDs_def removed_UIDs_def latest_added_def)
    with 1 d v show ?thesis by simp
  next
    case OtherObject
    from IH [of index rv] obtain index' rv' where
      e: "podIndexer_events (index, rv) evs = Inr (index', rv')"
      and d: "dom index' = (dom index \<union> added_UIDs evs) - removed_UIDs evs"
      and v: "\<forall>uid\<in>dom index'. index' uid =
               (case latest_added evs uid of Some info \<Rightarrow> Some info | None \<Rightarrow> index uid)"
      by blast
    have 1: "podIndexer_events (index, rv) (ev # evs) = Inr (index', rv')"
      using e ne OtherObject by (simp add: podIndexer_event_cases)
    have "added_UIDs (ev # evs) = added_UIDs evs" "removed_UIDs (ev # evs) = removed_UIDs evs"
      "latest_added (ev # evs) = latest_added evs"
      using OtherObject by (simp_all add: added_UIDs_def removed_UIDs_def latest_added_def)
    with 1 d v show ?thesis by simp
  qed
qed

text \<open>
  C3, as amended. An add notification puts the pod's record under its UID, a remove
  notification deletes the UID, a modify notification leaves the index as it is.
  After a sequence of notifications in which no UID is added again once it was
  removed, the UIDs of the index are those of the initial snapshot and those added,
  minus those removed, each with the record of its latest add notification (or its
  initial record when it was never added).
\<close>

theorem workload_index_content:
  "(Type ev = Added \<and> Object ev = PodObject pod \<longrightarrow>
      podIndexer_event (index, rv) ev =
        Inr (index(pod_UID pod \<mapsto> \<lparr>Name = pod_Name pod, Namespace = pod_Namespace pod\<rparr>),
             pod_ResourceVersion pod))
   \<and> (Type ev = Deleted \<and> Object ev = PodObject pod \<longrightarrow>
      podIndexer_event (index, rv) ev = Inr (index(pod_UID pod := None), pod_ResourceVersion pod))
   \<and> (Type ev = Modified \<and> Object ev = PodObject pod \<longrightarrow>
      podIndexer_event (index, rv) ev = Inr (index, pod_ResourceVersion pod))
   \<and> ((\<forall>e\<in>set evs. Type e \<noteq> watch_Error) \<and> no_add_after_remove evs \<longrightarrow>
        (\<exists>index' rv'. podIndexer_events (index, rv) evs = Inr (index', rv')
           \<and> dom index' = (dom index \<union> added_UIDs evs) - removed_UIDs evs
           \<and> (\<forall>uid\<in>dom index'. index' uid =
                 (case latest_added evs uid of Some info \<Rightarrow> Some info | None \<Rightarrow> index uid))))"
proof (intro conjI impI)
  show "podIndexer_event (index, rv) ev =
        Inr (index(pod_UID pod \<mapsto> \<lparr>Name = pod_Name pod, Namespace = pod_Namespace pod\<rparr>),
             pod_ResourceVersion pod)"
    if "Type ev = Added \<and> Object ev = PodObject pod"
    using that by (simp add: podIndexer_event_def index_put_def)
  show "podIndexer_event (index, rv) ev = Inr (index(pod_UID pod := None), pod_ResourceVersion pod)"
    if "Type ev = Deleted \<and> Object ev = PodObject pod"
    using that by (simp add: podIndexer_event_def)
  show "podIndexer_event (index, rv) ev = Inr (index, pod_ResourceVersion pod)"
    if "Type ev = Modified \<and> Object ev = PodObject pod"
    using that by (simp add: podIndexer_event_def)
  show "\<exists>index' rv'. podIndexer_events (index, rv) evs = Inr (index', rv')
           \<and> dom index' = (dom index \<union> added_UIDs evs) - removed_UIDs evs
           \<and> (\<forall>uid\<in>dom index'. index' uid =
                 (case latest_added evs uid of Some info \<Rightarrow> Some info | None \<Rightarrow> index uid))"
    if "(\<forall>e\<in>set evs. Type e \<noteq> watch_Error) \<and> no_add_after_remove evs"
    using that index_content [of evs index rv] by blast
qed

theorem workload_index_content_witness:
  "dom (fst (projr (podIndexer_events
       ([''u0'' \<mapsto> \<lparr>Name = ''db-0'', Namespace = ''prod''\<rparr>], ''10'')
       [\<lparr>Type = Added, Object = PodObject \<lparr>pod_UID = ''u1'', pod_Name = ''web-7'',
           pod_Namespace = ''prod'', pod_ResourceVersion = ''11''\<rparr>\<rparr>,
        \<lparr>Type = Modified, Object = PodObject \<lparr>pod_UID = ''u1'', pod_Name = ''web-7'',
           pod_Namespace = ''prod'', pod_ResourceVersion = ''12''\<rparr>\<rparr>,
        \<lparr>Type = Added, Object = PodObject \<lparr>pod_UID = ''u2'', pod_Name = ''job-1'',
           pod_Namespace = ''batch'', pod_ResourceVersion = ''13''\<rparr>\<rparr>,
        \<lparr>Type = Deleted, Object = PodObject \<lparr>pod_UID = ''u2'', pod_Name = ''job-1'',
           pod_Namespace = ''batch'', pod_ResourceVersion = ''14''\<rparr>\<rparr>])))
   = {''u0'', ''u1''}"
proof -
  let ?index = "[''u0'' \<mapsto> \<lparr>Name = ''db-0'', Namespace = ''prod''\<rparr>]"
  let ?evs = "[\<lparr>Type = Added, Object = PodObject \<lparr>pod_UID = ''u1'', pod_Name = ''web-7'',
           pod_Namespace = ''prod'', pod_ResourceVersion = ''11''\<rparr>\<rparr>,
        \<lparr>Type = Modified, Object = PodObject \<lparr>pod_UID = ''u1'', pod_Name = ''web-7'',
           pod_Namespace = ''prod'', pod_ResourceVersion = ''12''\<rparr>\<rparr>,
        \<lparr>Type = Added, Object = PodObject \<lparr>pod_UID = ''u2'', pod_Name = ''job-1'',
           pod_Namespace = ''batch'', pod_ResourceVersion = ''13''\<rparr>\<rparr>,
        \<lparr>Type = Deleted, Object = PodObject \<lparr>pod_UID = ''u2'', pod_Name = ''job-1'',
           pod_Namespace = ''batch'', pod_ResourceVersion = ''14''\<rparr>\<rparr>]"
  have h1: "\<forall>e\<in>set ?evs. Type e \<noteq> watch_Error" by simp
  have a: "added_UIDs ?evs = {''u1'', ''u2''}" by (simp add: added_UIDs_def)
  have r: "removed_UIDs ?evs = {''u2''}" by (simp add: removed_UIDs_def)
  have h2: "no_add_after_remove ?evs" by (simp add: added_UIDs_def)
  from workload_index_content [of _ _ ?index "''10''" ?evs] h1 h2
  obtain index' rv' where "podIndexer_events (?index, ''10'') ?evs = Inr (index', rv')"
    "dom index' = (dom ?index \<union> added_UIDs ?evs) - removed_UIDs ?evs" by blast
  then have "dom (fst (projr (podIndexer_events (?index, ''10'') ?evs)))
      = (dom ?index \<union> added_UIDs ?evs) - removed_UIDs ?evs" by simp
  also have "\<dots> = {''u0'', ''u1''}" unfolding a r by auto
  finally show ?thesis .
qed

theorem workload_index_readd_counterexample:
  "podIndexer_events (Map.empty, ''10'')
     [\<lparr>Type = Added, Object = PodObject \<lparr>pod_UID = ''u1'', pod_Name = ''web-7'',
         pod_Namespace = ''prod'', pod_ResourceVersion = ''11''\<rparr>\<rparr>,
      \<lparr>Type = Deleted, Object = PodObject \<lparr>pod_UID = ''u1'', pod_Name = ''web-7'',
         pod_Namespace = ''prod'', pod_ResourceVersion = ''12''\<rparr>\<rparr>,
      \<lparr>Type = Added, Object = PodObject \<lparr>pod_UID = ''u1'', pod_Name = ''web-7'',
         pod_Namespace = ''prod'', pod_ResourceVersion = ''13''\<rparr>\<rparr>]
   = Inr ([''u1'' \<mapsto> \<lparr>Name = ''web-7'', Namespace = ''prod''\<rparr>], ''13'')
   \<and> added_UIDs
     [\<lparr>Type = Added, Object = PodObject \<lparr>pod_UID = ''u1'', pod_Name = ''web-7'',
         pod_Namespace = ''prod'', pod_ResourceVersion = ''11''\<rparr>\<rparr>,
      \<lparr>Type = Deleted, Object = PodObject \<lparr>pod_UID = ''u1'', pod_Name = ''web-7'',
         pod_Namespace = ''prod'', pod_ResourceVersion = ''12''\<rparr>\<rparr>,
      \<lparr>Type = Added, Object = PodObject \<lparr>pod_UID = ''u1'', pod_Name = ''web-7'',
         pod_Namespace = ''prod'', pod_ResourceVersion = ''13''\<rparr>\<rparr>]
     - removed_UIDs
     [\<lparr>Type = Added, Object = PodObject \<lparr>pod_UID = ''u1'', pod_Name = ''web-7'',
         pod_Namespace = ''prod'', pod_ResourceVersion = ''11''\<rparr>\<rparr>,
      \<lparr>Type = Deleted, Object = PodObject \<lparr>pod_UID = ''u1'', pod_Name = ''web-7'',
         pod_Namespace = ''prod'', pod_ResourceVersion = ''12''\<rparr>\<rparr>,
      \<lparr>Type = Added, Object = PodObject \<lparr>pod_UID = ''u1'', pod_Name = ''web-7'',
         pod_Namespace = ''prod'', pod_ResourceVersion = ''13''\<rparr>\<rparr>]
   = {}"
  by (simp add: podIndexer_event_def index_put_def added_UIDs_def removed_UIDs_def)

lemma reason_expired_iff: "reason_expired err \<longleftrightarrow> (\<exists>msg. err = StatusError ''Expired'' msg)"
  by (cases err) auto

lemma podIndexer_watch_not_Fatal: "podIndexer_watch st ws \<noteq> Fatal err u"
proof (induction ws arbitrary: st)
  case Nil
  show ?case by simp
next
  case (Cons w ws)
  show ?case
  proof (cases w)
    case (WatchFails e)
    then show ?thesis by simp
  next
    case (WatchStream evs)
    then show ?thesis using Cons.IH by (simp split: sum.splits prod.splits)
  qed
qed

lemma podIndexer_exit_not_expired:
  assumes "\<forall>la\<in>set answers. \<exists>snapshot. la = Inr snapshot"
    and "podIndexer uidIndex answers ws = Exited err u"
  shows "\<not> reason_expired err"
  using assms
proof (induction answers arbitrary: uidIndex ws)
  case Nil
  then show ?case by simp
next
  case (Cons la answers)
  from Cons.prems(1) obtain items rv where la: "la = Inr (items, rv)" by fastforce
  from Cons.prems(1) have rest: "\<forall>la\<in>set answers. \<exists>snapshot. la = Inr snapshot" by simp
  show ?case
  proof (cases "internalPodIndexer uidIndex la ws")
    case (Returns e u' ws')
    show ?thesis
    proof (cases "reason_expired e")
      case True
      with Returns Cons.prems(2) have "podIndexer u' answers ws' = Exited err u" by simp
      from Cons.IH [OF rest this] show ?thesis .
    next
      case False
      with Returns Cons.prems(2) show ?thesis by simp
    qed
  next
    case (Fatal e u')
    with la show ?thesis by (simp add: internalPodIndexer_def podIndexer_watch_not_Fatal)
  next
    case (Waiting u')
    with Cons.prems(2) show ?thesis by simp
  qed
qed

lemma eventWatcher_exit_not_expired:
  "eventWatcher answers ws = EvExited err out \<Longrightarrow> \<not> reason_expired err"
proof (induction answers arbitrary: ws out)
  case Nil
  then show ?case by simp
next
  case (Cons la answers)
  show ?case
  proof (cases "internalEventWatcher la ws")
    case (EvReturns e out1 ws')
    show ?thesis
    proof (cases "reason_expired e")
      case True
      with EvReturns Cons.prems obtain out' where "eventWatcher answers ws' = EvExited err out'"
        by (auto split: watcher_process.splits)
      from Cons.IH [OF this] show ?thesis .
    next
      case False
      with EvReturns Cons.prems show ?thesis by simp
    qed
  next
    case (EvWaiting out1)
    with Cons.prems show ?thesis by simp
  qed
qed

lemma podIndexer_event_quiet:
  "Type ev \<noteq> watch_Error \<Longrightarrow> \<exists>st'. podIndexer_event st ev = Inr st'"
  by (simp add: podIndexer_event_def split: runtime_Object.splits)

lemma podIndexer_events_quiet:
  "first_error evs = None \<Longrightarrow> \<exists>st'. podIndexer_events st evs = Inr st'"
proof (induction evs arbitrary: st)
  case Nil
  show ?case by simp
next
  case (Cons ev evs)
  from Cons.prems have ty: "Type ev \<noteq> watch_Error" and rest: "first_error evs = None"
    by (simp_all split: if_splits)
  from podIndexer_event_quiet [OF ty] obtain st1 where "podIndexer_event st ev = Inr st1" ..
  with Cons.IH [OF rest, of st1] show ?case by simp
qed

lemma podIndexer_events_error:
  "first_error evs = Some err \<Longrightarrow> \<exists>index. podIndexer_events st evs = Inl (err, index)"
proof (induction evs arbitrary: st)
  case Nil
  then show ?case by simp
next
  case (Cons ev evs)
  show ?case
  proof (cases "Type ev = watch_Error")
    case True
    with Cons.prems show ?thesis by (simp add: podIndexer_event_def)
  next
    case False
    with Cons.prems have rest: "first_error evs = Some err" by simp
    from podIndexer_event_quiet [OF False] obtain st1 where "podIndexer_event st ev = Inr st1" ..
    with Cons.IH [OF rest, of st1] show ?thesis by simp
  qed
qed

lemma podIndexer_watch_error:
  "watch_error w = Some err \<Longrightarrow> \<exists>index. podIndexer_watch st (w # ws) = Returns err (Some index) ws"
proof (cases w)
  case (WatchFails e)
  assume "watch_error w = Some err"
  with WatchFails show ?thesis by simp
next
  case (WatchStream evs)
  assume "watch_error w = Some err"
  with WatchStream have "first_error evs = Some err" by simp
  from podIndexer_events_error [OF this, of st] obtain index
    where "podIndexer_events st evs = Inl (err, index)" ..
  with WatchStream show ?thesis by simp
qed

lemma podIndexer_watch_quiet:
  "\<forall>q\<in>set qs. watch_error q = None \<Longrightarrow>
   \<exists>st'. podIndexer_watch st (qs @ ws) = podIndexer_watch st' ws"
proof (induction qs arbitrary: st)
  case Nil
  have "podIndexer_watch st ([] @ ws) = podIndexer_watch st ws" by simp
  then show ?case ..
next
  case (Cons q qs)
  from Cons.prems have q: "watch_error q = None" and rest: "\<forall>q\<in>set qs. watch_error q = None"
    by simp_all
  from q obtain evs where w: "q = WatchStream evs" and fe: "first_error evs = None"
    by (cases q) simp_all
  from podIndexer_events_quiet [OF fe, of st] obtain st1
    where "podIndexer_events st evs = Inr st1" ..
  with w Cons.IH [OF rest, of st1] show ?case by simp
qed

lemma internalPodIndexer_watch_error:
  assumes "\<forall>q\<in>set qs. watch_error q = None" and "watch_error w = Some err"
  shows "\<exists>index. internalPodIndexer uidIndex (Inr (items, rv)) (qs @ w # ws)
           = Returns err (Some index) ws"
proof -
  from podIndexer_watch_quiet [OF assms(1), of "(load_items Map.empty items, rv)" "w # ws"]
  obtain st' where "podIndexer_watch (load_items Map.empty items, rv) (qs @ w # ws)
      = podIndexer_watch st' (w # ws)" ..
  with podIndexer_watch_error [OF assms(2), of st' ws] show ?thesis
    by (simp add: internalPodIndexer_def)
qed

lemma eventWatcher_event_quiet:
  "Type ev \<noteq> watch_Error \<Longrightarrow> \<exists>r. eventWatcher_event rv ev = Inr r"
  by (simp add: eventWatcher_event_def split: runtime_Object.splits)

lemma eventWatcher_events_first_error:
  "fst (eventWatcher_events rv evs) = first_error evs"
proof (induction evs arbitrary: rv)
  case Nil
  show ?case by simp
next
  case (Cons ev evs)
  show ?case
  proof (cases "Type ev = watch_Error")
    case True
    then show ?thesis by (simp add: eventWatcher_event_def)
  next
    case False
    from eventWatcher_event_quiet [OF False, of rv] obtain rv1 out
      where "eventWatcher_event rv ev = Inr (rv1, out)" by force
    moreover obtain e rv2 out2 where r: "eventWatcher_events rv1 evs = (e, rv2, out2)"
      by (cases "eventWatcher_events rv1 evs")
    moreover from Cons.IH [of rv1] r have "e = first_error evs" by simp
    ultimately show ?thesis using False by simp
  qed
qed

lemma eventWatcher_watch_error:
  "watch_error w = Some err \<Longrightarrow> \<exists>out. eventWatcher_watch rv (w # ws) = EvReturns err out ws"
proof (cases w)
  case (WatchFails e)
  assume "watch_error w = Some err"
  with WatchFails show ?thesis by simp
next
  case (WatchStream evs)
  assume "watch_error w = Some err"
  with WatchStream have "fst (eventWatcher_events rv evs) = Some err"
    by (simp add: eventWatcher_events_first_error)
  then obtain rv' out where "eventWatcher_events rv evs = (Some err, rv', out)"
    by (cases "eventWatcher_events rv evs") simp
  with WatchStream show ?thesis by simp
qed

lemma eventWatcher_watch_quiet:
  "\<forall>q\<in>set qs. watch_error q = None \<Longrightarrow> eventWatcher_watch rv' (w # ws) = EvReturns err out' ws
   \<Longrightarrow> (\<And>rv'. \<exists>out'. eventWatcher_watch rv' (w # ws) = EvReturns err out' ws)
   \<Longrightarrow> \<exists>out. eventWatcher_watch rv (qs @ w # ws) = EvReturns err out ws"
proof (induction qs arbitrary: rv)
  case Nil
  then show ?case by auto
next
  case (Cons q qs)
  from Cons.prems(1) have q: "watch_error q = None"
    and rest: "\<forall>q\<in>set qs. watch_error q = None" by simp_all
  from q obtain evs where w: "q = WatchStream evs" and fe: "first_error evs = None"
    by (cases q) simp_all
  from fe have "fst (eventWatcher_events rv evs) = None"
    by (simp add: eventWatcher_events_first_error)
  then obtain rv1 out1 where e: "eventWatcher_events rv evs = (None, rv1, out1)"
    by (cases "eventWatcher_events rv evs") simp
  from Cons.IH [OF rest Cons.prems(2) Cons.prems(3), of rv1] obtain out2
    where "eventWatcher_watch rv1 (qs @ w # ws) = EvReturns err out2 ws" by blast
  with w e show ?case by simp
qed

lemma internalEventWatcher_watch_error:
  assumes "\<forall>q\<in>set qs. watch_error q = None" and "watch_error w = Some err"
  shows "\<exists>out. internalEventWatcher (Inr (eitems, rv)) (qs @ w # ws) = EvReturns err out ws"
proof -
  from eventWatcher_watch_error [OF assms(2)]
  have a: "\<exists>out'. eventWatcher_watch rv' (w # ws) = EvReturns err out' ws" for rv' .
  then obtain out' where "eventWatcher_watch rv (w # ws) = EvReturns err out' ws" by blast
  from eventWatcher_watch_quiet [OF assms(1) this a, of rv] show ?thesis
    by (simp add: internalEventWatcher_def)
qed


text \<open>
  C4. \<open>watch_error w\<close> is the error with which a watch iteration terminates, if it
  does: the error of the \<^verbatim>\<open>Watch\<close> call, or the error of the first error event of
  its stream. After any number of watch iterations without error, an iteration
  that terminates with the error \<open>err\<close> makes \<open>internalPodIndexer\<close> and
  \<open>internalEventWatcher\<close> return \<open>err\<close>. The loop around the function then starts
  the function again if \<open>err\<close> is a status error of reason "Expired", and ends the
  process with any other error. The function starts with a list call and builds
  its state from the answer alone: the process goes on as one that has just
  started, and when the new list call has been answered the index holds the items
  of that list and nothing else. An error event of a watch carries the error of
  its status object. So the event watcher never ends the process with an "Expired"
  error, and neither does the pod indexer as long as its list calls succeed.
\<close>

theorem expired_restarts_other_errors_exit:
  "((\<forall>q\<in>set qs. watch_error q = None) \<and> watch_error w = Some werr \<longrightarrow>
      (\<exists>index.
         internalPodIndexer uidIndex (Inr (items, rv)) (qs @ w # rest) = Returns werr (Some index) rest
         \<and> podIndexer uidIndex (Inr (items, rv) # answers) (qs @ w # rest) =
             (if reason_expired werr then podIndexer (Some index) answers rest
              else Exited werr (Some index)))
      \<and> (reason_expired werr \<longrightarrow>
           podIndexer uidIndex (Inr (items, rv) # Inr snapshot # answers) (qs @ w # rest)
             = podIndexer None (Inr snapshot # answers) rest
           \<and> podIndexer uidIndex [Inr (items, rv), Inr (fresh_items, fresh_rv)] (qs @ [w])
             = Running (Some (load_items Map.empty fresh_items)))
      \<and> (\<exists>out.
         internalEventWatcher (Inr (eitems, rv)) (qs @ w # rest) = EvReturns werr out rest
         \<and> eventWatcher (Inr (eitems, rv) # eanswers) (qs @ w # rest) =
             (if reason_expired werr
              then (case eventWatcher eanswers rest of
                      EvExited err' out' \<Rightarrow> EvExited err' (out @ out')
                    | EvRunning out' \<Rightarrow> EvRunning (out @ out'))
              else EvExited werr out)))
   \<and> (\<forall>err u' ws'. internalPodIndexer uidIndex list_answer ws = Returns err u' ws' \<longrightarrow>
      podIndexer uidIndex (list_answer # answers) ws =
        (if reason_expired err then podIndexer u' answers ws' else Exited err u'))
   \<and> internalPodIndexer uidIndex (Inr (items, rv)) ws
       = podIndexer_watch (load_items Map.empty items, rv) ws
   \<and> (\<forall>err out ws'. internalEventWatcher elist_answer ws = EvReturns err out ws' \<longrightarrow>
      eventWatcher (elist_answer # eanswers) ws =
        (if reason_expired err
         then (case eventWatcher eanswers ws' of
                 EvExited err' out' \<Rightarrow> EvExited err' (out @ out')
               | EvRunning out' \<Rightarrow> EvRunning (out @ out'))
         else EvExited err out))
   \<and> internalEventWatcher (Inr (eitems, rv)) ws = eventWatcher_watch rv ws
   \<and> (reason_expired e \<longleftrightarrow> (\<exists>msg. e = StatusError ''Expired'' msg))
   \<and> (Type ev = watch_Error \<and> Object ev = StatusObject reason msg \<longrightarrow>
        podIndexer_event st ev = Inl (StatusError reason msg)
        \<and> eventWatcher_event rv ev = Inl (StatusError reason msg))
   \<and> ((\<forall>la\<in>set answers. \<exists>snapshot. la = Inr snapshot) \<longrightarrow>
        (\<forall>err u. podIndexer uidIndex answers ws = Exited err u \<longrightarrow> \<not> reason_expired err))
   \<and> (\<forall>err out. eventWatcher eanswers ws = EvExited err out \<longrightarrow> \<not> reason_expired err)"
proof -
  have link: "(\<exists>index.
         internalPodIndexer uidIndex (Inr (items, rv)) (qs @ w # rest) = Returns werr (Some index) rest
         \<and> podIndexer uidIndex (Inr (items, rv) # answers) (qs @ w # rest) =
             (if reason_expired werr then podIndexer (Some index) answers rest
              else Exited werr (Some index)))
      \<and> (reason_expired werr \<longrightarrow>
           podIndexer uidIndex (Inr (items, rv) # Inr snapshot # answers) (qs @ w # rest)
             = podIndexer None (Inr snapshot # answers) rest
           \<and> podIndexer uidIndex [Inr (items, rv), Inr (fresh_items, fresh_rv)] (qs @ [w])
             = Running (Some (load_items Map.empty fresh_items)))
      \<and> (\<exists>out.
         internalEventWatcher (Inr (eitems, rv)) (qs @ w # rest) = EvReturns werr out rest
         \<and> eventWatcher (Inr (eitems, rv) # eanswers) (qs @ w # rest) =
             (if reason_expired werr
              then (case eventWatcher eanswers rest of
                      EvExited err' out' \<Rightarrow> EvExited err' (out @ out')
                    | EvRunning out' \<Rightarrow> EvRunning (out @ out'))
              else EvExited werr out))"
    if quiet: "\<forall>q\<in>set qs. watch_error q = None" and werr: "watch_error w = Some werr"
  proof (intro conjI impI)
    from internalPodIndexer_watch_error [OF quiet werr] obtain index
      where r: "internalPodIndexer uidIndex (Inr (items, rv)) (qs @ w # rest)
        = Returns werr (Some index) rest" by blast
    then have "podIndexer uidIndex (Inr (items, rv) # answers) (qs @ w # rest) =
             (if reason_expired werr then podIndexer (Some index) answers rest
              else Exited werr (Some index))" by simp
    with r show "\<exists>index.
         internalPodIndexer uidIndex (Inr (items, rv)) (qs @ w # rest) = Returns werr (Some index) rest
         \<and> podIndexer uidIndex (Inr (items, rv) # answers) (qs @ w # rest) =
             (if reason_expired werr then podIndexer (Some index) answers rest
              else Exited werr (Some index))" by blast
    have fresh: "podIndexer u (Inr s # more) ws0 = podIndexer None (Inr s # more) ws0"
      for u s more ws0
      by (simp add: internalPodIndexer_def split: prod.splits)
    show "podIndexer uidIndex (Inr (items, rv) # Inr snapshot # answers) (qs @ w # rest)
             = podIndexer None (Inr snapshot # answers) rest" if x: "reason_expired werr"
    proof -
      from r x have "podIndexer uidIndex (Inr (items, rv) # Inr snapshot # answers) (qs @ w # rest)
          = podIndexer (Some index) (Inr snapshot # answers) rest" by simp
      with fresh [of "Some index" snapshot answers rest] show ?thesis by simp
    qed
    show "podIndexer uidIndex [Inr (items, rv), Inr (fresh_items, fresh_rv)] (qs @ [w])
             = Running (Some (load_items Map.empty fresh_items))" if x: "reason_expired werr"
    proof -
      from internalPodIndexer_watch_error [OF quiet werr, of uidIndex items rv "[]"] obtain index2
        where "internalPodIndexer uidIndex (Inr (items, rv)) (qs @ [w])
          = Returns werr (Some index2) []" by blast
      with x have "podIndexer uidIndex [Inr (items, rv), Inr (fresh_items, fresh_rv)] (qs @ [w])
          = podIndexer (Some index2) [Inr (fresh_items, fresh_rv)] []" by simp
      then show ?thesis by (simp add: internalPodIndexer_def)
    qed
    from internalEventWatcher_watch_error [OF quiet werr] obtain out
      where e: "internalEventWatcher (Inr (eitems, rv)) (qs @ w # rest) = EvReturns werr out rest"
      by blast
    then have "eventWatcher (Inr (eitems, rv) # eanswers) (qs @ w # rest) =
             (if reason_expired werr
              then (case eventWatcher eanswers rest of
                      EvExited err' out' \<Rightarrow> EvExited err' (out @ out')
                    | EvRunning out' \<Rightarrow> EvRunning (out @ out'))
              else EvExited werr out)" by simp
    with e show "\<exists>out.
         internalEventWatcher (Inr (eitems, rv)) (qs @ w # rest) = EvReturns werr out rest
         \<and> eventWatcher (Inr (eitems, rv) # eanswers) (qs @ w # rest) =
             (if reason_expired werr
              then (case eventWatcher eanswers rest of
                      EvExited err' out' \<Rightarrow> EvExited err' (out @ out')
                    | EvRunning out' \<Rightarrow> EvRunning (out @ out'))
              else EvExited werr out)" by blast
  qed
  have a1: "\<forall>err u' ws'. internalPodIndexer uidIndex list_answer ws = Returns err u' ws' \<longrightarrow>
      podIndexer uidIndex (list_answer # answers) ws =
        (if reason_expired err then podIndexer u' answers ws' else Exited err u')"
    by simp
  have a2: "internalPodIndexer uidIndex (Inr (items, rv)) ws
       = podIndexer_watch (load_items Map.empty items, rv) ws"
    by (simp add: internalPodIndexer_def)
  have a3: "\<forall>err out ws'. internalEventWatcher elist_answer ws = EvReturns err out ws' \<longrightarrow>
      eventWatcher (elist_answer # eanswers) ws =
        (if reason_expired err
         then (case eventWatcher eanswers ws' of
                 EvExited err' out' \<Rightarrow> EvExited err' (out @ out')
               | EvRunning out' \<Rightarrow> EvRunning (out @ out'))
         else EvExited err out)"
    by simp
  have a4: "internalEventWatcher (Inr (eitems, rv)) ws = eventWatcher_watch rv ws"
    by (simp add: internalEventWatcher_def)
  have a5: "reason_expired e \<longleftrightarrow> (\<exists>msg. e = StatusError ''Expired'' msg)"
    by (rule reason_expired_iff)
  have a6: "Type ev = watch_Error \<and> Object ev = StatusObject reason msg \<longrightarrow>
        podIndexer_event st ev = Inl (StatusError reason msg)
        \<and> eventWatcher_event rv ev = Inl (StatusError reason msg)"
    by (simp add: podIndexer_event_def eventWatcher_event_def)
  have a7: "(\<forall>la\<in>set answers. \<exists>snapshot. la = Inr snapshot) \<longrightarrow>
        (\<forall>err u. podIndexer uidIndex answers ws = Exited err u \<longrightarrow> \<not> reason_expired err)"
    using podIndexer_exit_not_expired by blast
  have a8: "\<forall>err out. eventWatcher eanswers ws = EvExited err out \<longrightarrow> \<not> reason_expired err"
    using eventWatcher_exit_not_expired by blast
  from link have a0: "(\<forall>q\<in>set qs. watch_error q = None) \<and> watch_error w = Some werr \<longrightarrow>
      (\<exists>index.
         internalPodIndexer uidIndex (Inr (items, rv)) (qs @ w # rest) = Returns werr (Some index) rest
         \<and> podIndexer uidIndex (Inr (items, rv) # answers) (qs @ w # rest) =
             (if reason_expired werr then podIndexer (Some index) answers rest
              else Exited werr (Some index)))
      \<and> (reason_expired werr \<longrightarrow>
           podIndexer uidIndex (Inr (items, rv) # Inr snapshot # answers) (qs @ w # rest)
             = podIndexer None (Inr snapshot # answers) rest
           \<and> podIndexer uidIndex [Inr (items, rv), Inr (fresh_items, fresh_rv)] (qs @ [w])
             = Running (Some (load_items Map.empty fresh_items)))
      \<and> (\<exists>out.
         internalEventWatcher (Inr (eitems, rv)) (qs @ w # rest) = EvReturns werr out rest
         \<and> eventWatcher (Inr (eitems, rv) # eanswers) (qs @ w # rest) =
             (if reason_expired werr
              then (case eventWatcher eanswers rest of
                      EvExited err' out' \<Rightarrow> EvExited err' (out @ out')
                    | EvRunning out' \<Rightarrow> EvRunning (out @ out'))
              else EvExited werr out))"
    by (intro impI) (elim conjE, assumption)
  from a0 a1 a2 a3 a4 a5 a6 a7 a8 show ?thesis by (intro conjI)
qed


theorem expired_restarts_other_errors_exit_witness:
  "podIndexer None
     [Inr ([\<lparr>pod_UID = ''u1'', pod_Name = ''web-7'', pod_Namespace = ''prod'',
              pod_ResourceVersion = ''5''\<rparr>], ''6''),
      Inr ([\<lparr>pod_UID = ''u2'', pod_Name = ''job-1'', pod_Namespace = ''batch'',
              pod_ResourceVersion = ''90''\<rparr>], ''91'')]
     [WatchStream [\<lparr>Type = Added, Object = PodObject \<lparr>pod_UID = ''u3'', pod_Name = ''db-0'',
                      pod_Namespace = ''prod'', pod_ResourceVersion = ''7''\<rparr>\<rparr>],
      WatchStream [\<lparr>Type = watch_Error,
                    Object = StatusObject ''Expired'' ''too old resource version''\<rparr>]]
   = Running (Some [''u2'' \<mapsto> \<lparr>Name = ''job-1'', Namespace = ''batch''\<rparr>])
   \<and> podIndexer None
     [Inr ([\<lparr>pod_UID = ''u1'', pod_Name = ''web-7'', pod_Namespace = ''prod'',
              pod_ResourceVersion = ''5''\<rparr>], ''6''),
      Inr ([\<lparr>pod_UID = ''u2'', pod_Name = ''job-1'', pod_Namespace = ''batch'',
              pod_ResourceVersion = ''90''\<rparr>], ''91'')]
     [WatchStream [\<lparr>Type = Added, Object = PodObject \<lparr>pod_UID = ''u3'', pod_Name = ''db-0'',
                      pod_Namespace = ''prod'', pod_ResourceVersion = ''7''\<rparr>\<rparr>],
      WatchStream [\<lparr>Type = watch_Error,
                    Object = StatusObject ''InternalError'' ''etcd is down''\<rparr>]]
   = Exited (StatusError ''InternalError'' ''etcd is down'')
       (Some [''u1'' \<mapsto> \<lparr>Name = ''web-7'', Namespace = ''prod''\<rparr>,
              ''u3'' \<mapsto> \<lparr>Name = ''db-0'', Namespace = ''prod''\<rparr>])
   \<and> podIndexer None
     [Inr ([\<lparr>pod_UID = ''u1'', pod_Name = ''web-7'', pod_Namespace = ''prod'',
              pod_ResourceVersion = ''5''\<rparr>], ''6''),
      Inr ([\<lparr>pod_UID = ''u2'', pod_Name = ''job-1'', pod_Namespace = ''batch'',
              pod_ResourceVersion = ''90''\<rparr>], ''91'')]
     [WatchStream [\<lparr>Type = Added, Object = PodObject \<lparr>pod_UID = ''u3'', pod_Name = ''db-0'',
                      pod_Namespace = ''prod'', pod_ResourceVersion = ''7''\<rparr>\<rparr>],
      WatchFails (OtherError ''connection refused'')]
   = Exited (OtherError ''connection refused'')
       (Some [''u1'' \<mapsto> \<lparr>Name = ''web-7'', Namespace = ''prod''\<rparr>,
              ''u3'' \<mapsto> \<lparr>Name = ''db-0'', Namespace = ''prod''\<rparr>])
   \<and> eventWatcher [Inr ([], ''6''), Inr ([], ''91'')]
     [WatchStream [],
      WatchStream [\<lparr>Type = watch_Error,
                    Object = StatusObject ''Expired'' ''too old resource version''\<rparr>]]
   = EvRunning []
   \<and> eventWatcher [Inr ([], ''6''), Inr ([], ''91'')]
     [WatchStream [],
      WatchStream [\<lparr>Type = watch_Error,
                    Object = StatusObject ''InternalError'' ''etcd is down''\<rparr>]]
   = EvExited (StatusError ''InternalError'' ''etcd is down'') []
   \<and> \<not> reason_expired (StatusError ''InternalError'' ''etcd is down'')"
proof -
  let ?l1 = "Inr ([\<lparr>pod_UID = ''u1'', pod_Name = ''web-7'', pod_Namespace = ''prod'',
              pod_ResourceVersion = ''5''\<rparr>], ''6'') :: pod_list_answer"
  let ?l2 = "Inr ([\<lparr>pod_UID = ''u2'', pod_Name = ''job-1'', pod_Namespace = ''batch'',
              pod_ResourceVersion = ''90''\<rparr>], ''91'') :: pod_list_answer"
  let ?e1 = "Inr ([], ''6'') :: event_list_answer"
  let ?e2 = "Inr ([], ''91'') :: event_list_answer"
  let ?quiet = "WatchStream [\<lparr>Type = Added, Object = PodObject \<lparr>pod_UID = ''u3'',
      pod_Name = ''db-0'', pod_Namespace = ''prod'', pod_ResourceVersion = ''7''\<rparr>\<rparr>]"
  let ?expired = "WatchStream [\<lparr>Type = watch_Error,
                    Object = StatusObject ''Expired'' ''too old resource version''\<rparr>]"
  let ?down = "WatchStream [\<lparr>Type = watch_Error,
                    Object = StatusObject ''InternalError'' ''etcd is down''\<rparr>]"
  let ?refused = "WatchFails (OtherError ''connection refused'')"
  let ?i13 = "[''u1'' \<mapsto> \<lparr>Name = ''web-7'', Namespace = ''prod''\<rparr>,
              ''u3'' \<mapsto> \<lparr>Name = ''db-0'', Namespace = ''prod''\<rparr>]"
  have q: "\<forall>q\<in>set [?quiet]. watch_error q = None" by simp
  have q0: "\<forall>q\<in>set [WatchStream []]. watch_error q = None" by simp
  have w1: "watch_error ?expired = Some (StatusError ''Expired'' ''too old resource version'')"
    by simp
  have w2: "watch_error ?down = Some (StatusError ''InternalError'' ''etcd is down'')"
    by simp
  have w3: "watch_error ?refused = Some (OtherError ''connection refused'')"
    by simp
  have r2: "internalPodIndexer None ?l1 [?quiet, ?down]
      = Returns (StatusError ''InternalError'' ''etcd is down'') (Some ?i13) []"
    by (simp add: internalPodIndexer_def podIndexer_event_def index_put_def)
  have r3: "internalPodIndexer None ?l1 [?quiet, ?refused]
      = Returns (OtherError ''connection refused'') (Some ?i13) []"
    by (simp add: internalPodIndexer_def podIndexer_event_def index_put_def)
  have r4: "internalEventWatcher ?e1 [WatchStream [], ?expired]
      = EvReturns (StatusError ''Expired'' ''too old resource version'') [] []"
    by (simp add: internalEventWatcher_def eventWatcher_event_def)
  have r5: "internalEventWatcher ?e1 [WatchStream [], ?down]
      = EvReturns (StatusError ''InternalError'' ''etcd is down'') [] []"
    by (simp add: internalEventWatcher_def eventWatcher_event_def)
  have x1: "reason_expired (StatusError ''Expired'' ''too old resource version'')" by simp
  have x2: "\<not> reason_expired (StatusError ''InternalError'' ''etcd is down'')" by simp
  have x3: "\<not> reason_expired (OtherError ''connection refused'')" by simp
  note t = expired_restarts_other_errors_exit
  note t1 = t [where qs = "[?quiet]" and w = ?expired
      and werr = "StatusError ''Expired'' ''too old resource version''" and uidIndex = None
      and items = "[\<lparr>pod_UID = ''u1'', pod_Name = ''web-7'', pod_Namespace = ''prod'',
              pod_ResourceVersion = ''5''\<rparr>]" and rv = "''6''"
      and fresh_items = "[\<lparr>pod_UID = ''u2'', pod_Name = ''job-1'', pod_Namespace = ''batch'',
              pod_ResourceVersion = ''90''\<rparr>]" and fresh_rv = "''91''",
      THEN conjunct1, THEN mp, OF conjI [OF q w1],
      THEN conjunct2, THEN conjunct1, THEN mp, OF x1, THEN conjunct2]
  have i2: "load_items Map.empty [\<lparr>pod_UID = ''u2'', pod_Name = ''job-1'',
          pod_Namespace = ''batch'', pod_ResourceVersion = ''90''\<rparr>]
      = [''u2'' \<mapsto> \<lparr>Name = ''job-1'', Namespace = ''batch''\<rparr>]"
    by (simp add: index_put_def)
  from t1 have 1: "podIndexer None [?l1, ?l2] [?quiet, ?expired]
      = Running (Some [''u2'' \<mapsto> \<lparr>Name = ''job-1'', Namespace = ''batch''\<rparr>])"
    by (simp only: append.simps i2)
  note t2 = t [where qs = "[?quiet]" and w = ?down
      and werr = "StatusError ''InternalError'' ''etcd is down''" and uidIndex = None
      and items = "[\<lparr>pod_UID = ''u1'', pod_Name = ''web-7'', pod_Namespace = ''prod'',
              pod_ResourceVersion = ''5''\<rparr>]" and rv = "''6''"
      and rest = "[]" and answers = "[?l2]",
      THEN conjunct1, THEN mp, OF conjI [OF q w2], THEN conjunct1]
  then obtain index where a2: "internalPodIndexer None ?l1 ([?quiet] @ [?down])
        = Returns (StatusError ''InternalError'' ''etcd is down'') (Some index) []"
    and b2: "podIndexer None [?l1, ?l2] ([?quiet] @ [?down])
        = (if reason_expired (StatusError ''InternalError'' ''etcd is down'')
           then podIndexer (Some index) [?l2] []
           else Exited (StatusError ''InternalError'' ''etcd is down'') (Some index))"
    by (elim exE conjE)
  from a2 r2 have "index = ?i13" by (simp only: append.simps indexer_run.inject option.inject)
  with b2 x2 have 2: "podIndexer None [?l1, ?l2] [?quiet, ?down]
      = Exited (StatusError ''InternalError'' ''etcd is down'') (Some ?i13)"
    by (simp only: append.simps if_False)
  note t3 = t [where qs = "[?quiet]" and w = ?refused
      and werr = "OtherError ''connection refused''" and uidIndex = None
      and items = "[\<lparr>pod_UID = ''u1'', pod_Name = ''web-7'', pod_Namespace = ''prod'',
              pod_ResourceVersion = ''5''\<rparr>]" and rv = "''6''"
      and rest = "[]" and answers = "[?l2]",
      THEN conjunct1, THEN mp, OF conjI [OF q w3], THEN conjunct1]
  then obtain index3 where a3: "internalPodIndexer None ?l1 ([?quiet] @ [?refused])
        = Returns (OtherError ''connection refused'') (Some index3) []"
    and b3: "podIndexer None [?l1, ?l2] ([?quiet] @ [?refused])
        = (if reason_expired (OtherError ''connection refused'')
           then podIndexer (Some index3) [?l2] []
           else Exited (OtherError ''connection refused'') (Some index3))"
    by (elim exE conjE)
  from a3 r3 have "index3 = ?i13" by (simp only: append.simps indexer_run.inject option.inject)
  with b3 x3 have 3: "podIndexer None [?l1, ?l2] [?quiet, ?refused]
      = Exited (OtherError ''connection refused'') (Some ?i13)"
    by (simp only: append.simps if_False)
  note t4 = t [where qs = "[WatchStream []]" and w = ?expired
      and werr = "StatusError ''Expired'' ''too old resource version''"
      and eitems = "[]" and rv = "''6''" and rest = "[]" and eanswers = "[?e2]",
      THEN conjunct1, THEN mp, OF conjI [OF q0 w1], THEN conjunct2, THEN conjunct2]
  then obtain out4 where a4: "internalEventWatcher ?e1 ([WatchStream []] @ [?expired])
        = EvReturns (StatusError ''Expired'' ''too old resource version'') out4 []"
    and b4: "eventWatcher [?e1, ?e2] ([WatchStream []] @ [?expired])
        = (if reason_expired (StatusError ''Expired'' ''too old resource version'')
           then (case eventWatcher [?e2] [] of
                   EvExited err' out' \<Rightarrow> EvExited err' (out4 @ out')
                 | EvRunning out' \<Rightarrow> EvRunning (out4 @ out'))
           else EvExited (StatusError ''Expired'' ''too old resource version'') out4)"
    by (elim exE conjE)
  from a4 r4 have o4: "out4 = []" by (simp only: append.simps watcher_run.inject)
  have fresh: "eventWatcher [?e2] [] = EvRunning []" by (simp add: internalEventWatcher_def)
  from b4 x1 have 4: "eventWatcher [?e1, ?e2] [WatchStream [], ?expired] = EvRunning []"
    by (simp only: append.simps if_True fresh o4 watcher_process.case)
  note t5 = t [where qs = "[WatchStream []]" and w = ?down
      and werr = "StatusError ''InternalError'' ''etcd is down''"
      and eitems = "[]" and rv = "''6''" and rest = "[]" and eanswers = "[?e2]",
      THEN conjunct1, THEN mp, OF conjI [OF q0 w2], THEN conjunct2, THEN conjunct2]
  then obtain out5 where a5: "internalEventWatcher ?e1 ([WatchStream []] @ [?down])
        = EvReturns (StatusError ''InternalError'' ''etcd is down'') out5 []"
    and b5: "eventWatcher [?e1, ?e2] ([WatchStream []] @ [?down])
        = (if reason_expired (StatusError ''InternalError'' ''etcd is down'')
           then (case eventWatcher [?e2] [] of
                   EvExited err' out' \<Rightarrow> EvExited err' (out5 @ out')
                 | EvRunning out' \<Rightarrow> EvRunning (out5 @ out'))
           else EvExited (StatusError ''InternalError'' ''etcd is down'') out5)"
    by (elim exE conjE)
  from a5 r5 have "out5 = []" by (simp only: append.simps watcher_run.inject)
  with b5 x2 have 5: "eventWatcher [?e1, ?e2] [WatchStream [], ?down]
      = EvExited (StatusError ''InternalError'' ''etcd is down'') []"
    by (simp only: append.simps if_False)
  have lists: "\<forall>la\<in>set [?l1, ?l2]. \<exists>snapshot. la = Inr snapshot" by simp
  note 6 = t [where uidIndex = None and answers = "[?l1, ?l2]" and ws = "[?quiet, ?down]",
      THEN conjunct2, THEN conjunct2, THEN conjunct2, THEN conjunct2, THEN conjunct2,
      THEN conjunct2, THEN conjunct2, THEN conjunct1, THEN mp, OF lists,
      THEN spec, THEN spec, THEN mp, OF 2]
  from 1 2 3 4 5 6 show ?thesis by (intro conjI)
qed

section \<open>The watch timeout\<close>

lemma round_half_even_ge: "of_int m \<le> q \<Longrightarrow> m \<le> round_half_even q"
proof -
  assume "of_int m \<le> q"
  then have "m \<le> \<lfloor>q\<rfloor>" by (simp add: le_floor_iff)
  then show ?thesis by (simp add: round_half_even_def)
qed

lemma round_half_even_le: "q \<le> of_int m \<Longrightarrow> round_half_even q \<le> m"
proof -
  assume q: "q \<le> of_int m"
  then have fl: "\<lfloor>q\<rfloor> \<le> m" by (simp add: floor_le_iff)
  show ?thesis
  proof (cases "\<lfloor>q\<rfloor> = m")
    case True
    have "of_int \<lfloor>q\<rfloor> \<le> q" by simp
    with True q have "q = of_int m" by simp
    then show ?thesis by (simp add: round_half_even_def)
  next
    case False
    with fl have "\<lfloor>q\<rfloor> + 1 \<le> m" by simp
    then show ?thesis by (simp add: round_half_even_def)
  qed
qed

lemma floorlog_2_eq: "2 ^ k \<le> n \<Longrightarrow> n < 2 ^ Suc k \<Longrightarrow> floorlog 2 n = Suc k"
proof -
  assume a: "2 ^ k \<le> n" "n < 2 ^ Suc k"
  have "floorlog 2 n \<le> Suc k" using a(2) by (simp add: floorlog_le_iff)
  moreover have "Suc k \<le> floorlog 2 n" using a(1) by (intro floorlog_ge_SucI) simp_all
  ultimately show ?thesis by simp
qed

lemma ulp64_binade:
  assumes "2 ^ k \<le> x" "x < 2 ^ Suc k"
  shows "ulp64 x = 2 ^ Suc k / 2 ^ 53"
proof -
  have x0: "0 \<le> x" using assms(1) by (meson order_trans zero_le_numeral zero_le_power)
  have "(2::int) ^ k \<le> \<lfloor>x\<rfloor>" using assms(1) by (simp add: le_floor_iff)
  then have 1: "2 ^ k \<le> nat \<lfloor>x\<rfloor>" by (simp add: le_nat_iff)
  have "\<lfloor>x\<rfloor> < 2 ^ Suc k" using assms(2) by (simp add: floor_less_iff)
  then have 2: "nat \<lfloor>x\<rfloor> < 2 ^ Suc k" using x0 by (simp add: nat_less_iff)
  from floorlog_2_eq [OF 1 2] show ?thesis by (simp add: ulp64_def)
qed

lemma rnd64_between:
  assumes u: "ulp64 x = u" "0 < u" and a: "u * of_int ka \<le> x" and b: "x \<le> u * of_int kb"
  shows "u * of_int ka \<le> rnd64 x \<and> rnd64 x \<le> u * of_int kb"
proof -
  from a u(2) have "of_int ka \<le> x / u" by (simp add: pos_le_divide_eq mult.commute)
  then have 1: "ka \<le> round_half_even (x / u)" by (rule round_half_even_ge)
  from b u(2) have "x / u \<le> of_int kb" by (simp add: pos_divide_le_eq mult.commute)
  then have 2: "round_half_even (x / u) \<le> kb" by (rule round_half_even_le)
  from 1 2 u(2) show ?thesis by (simp add: rnd64_def u(1))
qed

lemma float64_add_1_bounds:
  assumes "0 \<le> r" "r < 1"
  shows "1 \<le> float64_add r 1 \<and> float64_add r 1 \<le> 2"
proof -
  have "ulp64 (r + 1) = 2 ^ Suc 0 / 2 ^ 53"
    using assms by (intro ulp64_binade) simp_all
  then have u: "ulp64 (r + 1) = 1 / 2 ^ 52" by simp
  have "(1 / 2 ^ 52) * of_int (2 ^ 52) \<le> rnd64 (r + 1)
      \<and> rnd64 (r + 1) \<le> (1 / 2 ^ 52) * of_int (2 ^ 53)"
    using assms by (intro rnd64_between [OF u]) simp_all
  then show ?thesis by (simp add: float64_add_def)
qed

lemma float64_mul_300_bounds:
  assumes "1 \<le> y" "y \<le> 2"
  shows "300 \<le> float64_mul 300 y \<and> float64_mul 300 y \<le> 600"
proof (cases "300 * y < 512")
  case True
  have "ulp64 (300 * y) = 2 ^ Suc 8 / 2 ^ 53"
    using assms True by (intro ulp64_binade) simp_all
  then have u: "ulp64 (300 * y) = 1 / 2 ^ 44" by simp
  have "(1 / 2 ^ 44) * of_int (300 * 2 ^ 44) \<le> rnd64 (300 * y)
      \<and> rnd64 (300 * y) \<le> (1 / 2 ^ 44) * of_int (600 * 2 ^ 44)"
    using assms by (intro rnd64_between [OF u]) simp_all
  then show ?thesis by (simp add: float64_mul_def)
next
  case False
  have "ulp64 (300 * y) = 2 ^ Suc 9 / 2 ^ 53"
    using assms False by (intro ulp64_binade) simp_all
  then have u: "ulp64 (300 * y) = 1 / 2 ^ 43" by simp
  have "(1 / 2 ^ 43) * of_int (300 * 2 ^ 43) \<le> rnd64 (300 * y)
      \<and> rnd64 (300 * y) \<le> (1 / 2 ^ 43) * of_int (600 * 2 ^ 43)"
    using assms by (intro rnd64_between [OF u]) simp_all
  then show ?thesis by (simp add: float64_mul_def)
qed

lemma timeoutSeconds_bounds:
  assumes "0 \<le> r" "r < 1"
  shows "300 \<le> timeoutSeconds r \<and> timeoutSeconds r \<le> 600"
proof -
  from float64_add_1_bounds [OF assms] float64_mul_300_bounds [of "float64_add r 1"]
  have "300 \<le> float64_mul 300 (float64_add r 1)" "float64_mul 300 (float64_add r 1) \<le> 600"
    by simp_all
  then show ?thesis
    by (simp add: timeoutSeconds_def minWatchTimeout_Seconds_def int64_of_float64_def
        le_floor_iff floor_le_iff)
qed

lemma float64_add_largest: "float64_add (1 - 1 / 2 ^ 53) 1 = 2"
proof -
  let ?x = "1 - 1 / 2 ^ 53 + 1 :: real"
  have "ulp64 ?x = 2 ^ Suc 0 / 2 ^ 53" by (intro ulp64_binade) simp_all
  then have u: "ulp64 ?x = 1 / 2 ^ 52" by simp
  have q: "?x / (1 / 2 ^ 52) = of_int (2 ^ 53 - 1) + 1 / 2" by simp
  have fl: "\<lfloor>of_int (2 ^ 53 - 1) + 1 / 2 :: real\<rfloor> = 2 ^ 53 - 1"
    by (intro floor_unique) simp_all
  have r: "round_half_even (of_int (2 ^ 53 - 1) + 1 / 2) = 2 ^ 53"
    unfolding round_half_even_def fl by simp
  have "rnd64 ?x = (1 / 2 ^ 52) * of_int (round_half_even (?x / (1 / 2 ^ 52)))"
    by (simp only: rnd64_def u)
  also have "\<dots> = (1 / 2 ^ 52) * of_int (2 ^ 53)" by (simp only: q r)
  also have "\<dots> = 2" by simp
  finally show ?thesis by (simp only: float64_add_def)
qed

lemma float64_mul_600: "float64_mul 300 2 = 600"
proof -
  have "ulp64 (300 * 2) = 2 ^ Suc 9 / 2 ^ 53" by (intro ulp64_binade) simp_all
  then have u: "ulp64 (300 * 2) = 1 / 2 ^ 43" by simp
  have q: "300 * 2 / (1 / 2 ^ 43) = (of_int (600 * 2 ^ 43) :: real)" by simp
  have r: "round_half_even (of_int (600 * 2 ^ 43)) = 600 * 2 ^ 43"
    unfolding round_half_even_def by simp
  have "rnd64 (300 * 2) = (1 / 2 ^ 43) * of_int (round_half_even (300 * 2 / (1 / 2 ^ 43)))"
    by (simp only: rnd64_def u)
  also have "\<dots> = (1 / 2 ^ 43) * of_int (600 * 2 ^ 43)" by (simp only: q r)
  also have "\<dots> = 600" by simp
  finally show ?thesis by (simp only: float64_mul_def)
qed

lemma timeoutSeconds_largest: "timeoutSeconds (1 - 1 / 2 ^ 53) = 600"
proof -
  have m: "minWatchTimeout_Seconds = 300" by (simp add: minWatchTimeout_Seconds_def)
  have "timeoutSeconds (1 - 1 / 2 ^ 53) = int64_of_float64 600"
    by (simp only: timeoutSeconds_def m float64_add_largest float64_mul_600)
  also have "\<dots> = 600" by (simp add: int64_of_float64_def)
  finally show ?thesis .
qed

lemma round_half_even_below_half: "q < of_int m + 1 / 2 \<Longrightarrow> round_half_even q \<le> m"
proof -
  assume q: "q < of_int m + 1 / 2"
  then have "q < of_int (m + 1)" by simp
  then have "\<lfloor>q\<rfloor> < m + 1" by (simp only: floor_less_iff)
  then have fl: "\<lfloor>q\<rfloor> \<le> m" by simp
  show ?thesis
  proof (cases "\<lfloor>q\<rfloor> = m")
    case True
    with q have "q - of_int \<lfloor>q\<rfloor> < 1 / 2" by simp
    with True show ?thesis by (simp add: round_half_even_def)
  next
    case False
    with fl have "\<lfloor>q\<rfloor> + 1 \<le> m" by simp
    then show ?thesis by (simp add: round_half_even_def)
  qed
qed

lemma float64_add_1_below:
  assumes "0 \<le> r" "r < 1 - 1 / 2 ^ 53"
  shows "float64_add r 1 \<le> 2 - 1 / 2 ^ 52"
proof -
  have "ulp64 (r + 1) = 2 ^ Suc 0 / 2 ^ 53"
    using assms by (intro ulp64_binade) simp_all
  then have u: "ulp64 (r + 1) = 1 / 2 ^ 52" by simp
  have "(r + 1) / (1 / 2 ^ 52) < of_int (2 ^ 53 - 1) + 1 / 2"
    using assms(2) by simp
  then have "round_half_even ((r + 1) / (1 / 2 ^ 52)) \<le> 2 ^ 53 - 1"
    by (rule round_half_even_below_half)
  then have "real_of_int (round_half_even ((r + 1) / (1 / 2 ^ 52))) \<le> real_of_int (2 ^ 53 - 1)"
    by (simp only: of_int_le_iff)
  also have "real_of_int (2 ^ 53 - 1) = 2 ^ 53 - 1" by simp
  finally have "real_of_int (round_half_even ((r + 1) / (1 / 2 ^ 52))) \<le> 2 ^ 53 - 1" .
  then have "(1 / 2 ^ 52) * real_of_int (round_half_even ((r + 1) / (1 / 2 ^ 52)))
      \<le> (1 / 2 ^ 52) * (2 ^ 53 - 1)"
    by (intro mult_left_mono) simp_all
  also have "\<dots> = 2 - 1 / 2 ^ 52" by simp
  finally show ?thesis by (simp only: float64_add_def rnd64_def u)
qed

lemma float64_mul_300_below:
  assumes "1 \<le> y" "y \<le> 2 - 1 / 2 ^ 52"
  shows "float64_mul 300 y < 600"
proof (cases "300 * y < 512")
  case True
  have "ulp64 (300 * y) = 2 ^ Suc 8 / 2 ^ 53"
    using assms True by (intro ulp64_binade) simp_all
  then have u: "ulp64 (300 * y) = 1 / 2 ^ 44" by simp
  have "(1 / 2 ^ 44) * of_int (300 * 2 ^ 44) \<le> rnd64 (300 * y)
      \<and> rnd64 (300 * y) \<le> (1 / 2 ^ 44) * of_int (512 * 2 ^ 44)"
    using assms True by (intro rnd64_between [OF u]) simp_all
  then show ?thesis by (simp add: float64_mul_def)
next
  case False
  have "ulp64 (300 * y) = 2 ^ Suc 9 / 2 ^ 53"
    using assms False by (intro ulp64_binade) simp_all
  then have u: "ulp64 (300 * y) = 1 / 2 ^ 43" by simp
  have "300 * y / (1 / 2 ^ 43) < of_int (600 * 2 ^ 43 - 1) + 1 / 2"
    using assms(2) by simp
  then have "round_half_even (300 * y / (1 / 2 ^ 43)) \<le> 600 * 2 ^ 43 - 1"
    by (rule round_half_even_below_half)
  then have "real_of_int (round_half_even (300 * y / (1 / 2 ^ 43)))
      \<le> real_of_int (600 * 2 ^ 43 - 1)"
    by (simp only: of_int_le_iff)
  also have "real_of_int (600 * 2 ^ 43 - 1) = 600 * 2 ^ 43 - 1" by simp
  finally have "real_of_int (round_half_even (300 * y / (1 / 2 ^ 43))) \<le> 600 * 2 ^ 43 - 1" .
  then have "(1 / 2 ^ 43) * real_of_int (round_half_even (300 * y / (1 / 2 ^ 43)))
      \<le> (1 / 2 ^ 43) * (600 * 2 ^ 43 - 1)"
    by (intro mult_left_mono) simp_all
  also have "\<dots> < 600" by simp
  finally show ?thesis by (simp only: float64_mul_def rnd64_def u)
qed

lemma timeoutSeconds_below:
  assumes "0 \<le> r" "r < 1 - 1 / 2 ^ 53"
  shows "timeoutSeconds r < 600"
proof -
  have "(0::real) < 1 / 2 ^ 53" by simp
  with assms(2) have "r < 1" by linarith
  with assms(1) have y1: "1 \<le> float64_add r 1" using float64_add_1_bounds by blast
  from float64_mul_300_below [OF y1 float64_add_1_below [OF assms]]
  have lt: "float64_mul 300 (float64_add r 1) < 600" .
  from float64_mul_300_bounds [of "float64_add r 1"] y1 float64_add_1_bounds [of r] assms(1) \<open>r < 1\<close>
  have "0 \<le> float64_mul 300 (float64_add r 1)" by simp
  with lt show ?thesis
    by (simp add: timeoutSeconds_def minWatchTimeout_Seconds_def int64_of_float64_def
        floor_less_iff)
qed

text \<open>
  C9, as amended. With \<open>T\<close> = 300 seconds, the timeout of a watch is an integer of
  the closed interval \<open>[T, 2T]\<close> for every draw of \<open>[0, 1)\<close>, and it is less than
  \<open>2T\<close> for every draw below \<open>1 - 2^-53\<close>. (At the draw \<open>1 - 2^-53\<close>, the largest
  \<^verbatim>\<open>float64\<close> below 1, the sum \<^verbatim>\<open>rand.Float64() + 1.0\<close> is rounded to 2 and
  the timeout is \<open>2T\<close>.)
\<close>

theorem timeoutSeconds_range:
  "minWatchTimeout_Seconds = 300
   \<and> (0 \<le> r \<and> r < 1 \<longrightarrow> 300 \<le> timeoutSeconds r \<and> timeoutSeconds r \<le> 2 * 300)
   \<and> (0 \<le> r \<and> r < 1 - 1 / 2 ^ 53 \<longrightarrow> timeoutSeconds r < 2 * 300)"
  using timeoutSeconds_bounds [of r] timeoutSeconds_below [of r]
  by (simp add: minWatchTimeout_Seconds_def)

theorem timeoutSeconds_range_witness:
  "300 \<le> timeoutSeconds (1 / 2) \<and> timeoutSeconds (1 / 2) < 600"
proof -
  have "(0::real) \<le> 1 / 2" "(1 / 2 :: real) < 1" "(1 / 2 :: real) < 1 - 1 / 2 ^ 53"
    by simp_all
  with timeoutSeconds_range [of "1 / 2"] show ?thesis by simp
qed

theorem timeoutSeconds_two_T_counterexample:
  "(0::real) \<le> 1 - 1 / 2 ^ 53 \<and> (1 - 1 / 2 ^ 53 :: real) < 1
   \<and> timeoutSeconds (1 - 1 / 2 ^ 53) = 2 * 300"
proof (intro conjI)
  show "(0::real) \<le> 1 - 1 / 2 ^ 53" by simp
  show "(1 - 1 / 2 ^ 53 :: real) < 1" by simp
  show "timeoutSeconds (1 - 1 / 2 ^ 53) = 2 * 300" by (simp only: timeoutSeconds_largest)
qed

section \<open>An alert from end to end\<close>

lemma format_d_7: "format_d 7 = ''7''"
  by code_simp

lemma handleOOM_example:
  "handleOOM nf
     (DbTable [\<lparr>rec_hostname = ''node-3'', rec_pid = 500, rec_ts = 20,
                rec_cgroup = ''/kubepods/burstable/podu1/c0'', rec_nspid = 7\<rparr>] 25)
     (Some [''u1'' \<mapsto> \<lparr>Name = ''web-7'', Namespace = ''prod''\<rparr>])
     reqs \<lparr>Node = ''node-3'', PID = 500, Error = None\<rparr>
   = postMessage nf reqs
       [''username'' \<mapsto> ''OOM watcher'',
        ''text'' \<mapsto> ''OOM in pod prod/web-7 (node: node-3, PID: 500, NSPID: 7)'']"
proof -
  have u: "unat (500 :: uint64) = 500" "unat (7 :: uint64) = 7" by simp_all
  have t: "oom_text \<lparr>Name = ''web-7'', Namespace = ''prod''\<rparr>
      \<lparr>Node = ''node-3'', PID = 500, Error = None\<rparr> 7
      = ''OOM in pod prod/web-7 (node: node-3, PID: 500, NSPID: 7)''"
    by (simp add: oom_text_def format_d_500 format_d_7)
  have q: "QueryRow (DbTable [\<lparr>rec_hostname = ''node-3'', rec_pid = 500, rec_ts = 20,
                rec_cgroup = ''/kubepods/burstable/podu1/c0'', rec_nspid = 7\<rparr>] 25)
      ''node-3'' 500 = Row ''/kubepods/burstable/podu1/c0'' 7"
    by (simp add: QueryRow_def select_record_def)
  show ?thesis
    by (simp add: handleOOM_def q extractUID_podu1 t)
qed

end
